theory Spec2Isabelle
  imports Complex_Main
begin

section \<open>Strings and characters\<close>

text \<open>
  A JavaScript string is modelled as a \<^typ>\<open>string\<close>, its \<open>length\<close> as the list length
  and its code units as the 8-bit characters U+0000 to U+00FF.  The two case mappings the
  engine relies on are written out for that range: \<open>String.prototype.toLowerCase\<close> (used
  for the key of the dynamic store) and the \<open>Canonicalize\<close> operation of an
  \<open>ignoreCase\<close> regular expression without the \<open>unicode\<close> flag, which upper-cases a
  single code unit.  The two characters of the range whose upper case lies outside of it
  (U+00B5, U+00FF) and U+00DF, whose upper case is two code units long, are kept: inside
  the range each of them is only equal to itself after canonicalisation.
\<close>

definition isWordChar :: "char \<Rightarrow> bool" where
  "isWordChar c =
     (let n = (of_char c :: nat)
      in (97 \<le> n \<and> n \<le> 122) \<or> (65 \<le> n \<and> n \<le> 90) \<or> (48 \<le> n \<and> n \<le> 57) \<or> n = 95)"

definition canonicalize :: "char \<Rightarrow> char" where
  "canonicalize c =
     (let n = (of_char c :: nat)
      in if (97 \<le> n \<and> n \<le> 122) \<or> (224 \<le> n \<and> n \<le> 254 \<and> n \<noteq> 247)
         then char_of (n - 32) else c)"

definition toLowerCase_char :: "char \<Rightarrow> char" where
  "toLowerCase_char c =
     (let n = (of_char c :: nat)
      in if (65 \<le> n \<and> n \<le> 90) \<or> (192 \<le> n \<and> n \<le> 222 \<and> n \<noteq> 215)
         then char_of (n + 32) else c)"

definition toLowerCase :: "string \<Rightarrow> string" where
  "toLowerCase s = map toLowerCase_char s"

section \<open>Regular expressions of the engine\<close>

text \<open>
  Both the constructor and \<open>addDynamicTerm\<close> build their matcher as
  \<^verbatim>\<open>new RegExp(`\\b${escaped}\\b`, 'gi')\<close> where \<open>escaped\<close> is
  \<^verbatim>\<open>term.replace(/[.*+?^${}()|[\]\\]/g, '\\$&')\<close>.
\<close>

definition backslash :: char where
  "backslash = CHR 0x5C"

definition syntaxChars :: "char list" where
  "syntaxChars = ''.*+?^${}()|[]'' @ [backslash]"

fun escapeRegExp :: "string \<Rightarrow> string" where
  "escapeRegExp [] = []"
| "escapeRegExp (c # cs) =
     (if c \<in> set syntaxChars then backslash # c # escapeRegExp cs else c # escapeRegExp cs)"

text \<open>
  The pattern source is parsed into the terms of the pattern grammar that these sources
  can contain: the assertion \<^verbatim>\<open>\b\<close>, a pattern character, and a syntax character behind
  a backslash (an identity escape).  Any other source (an unescaped syntax character, a
  dangling backslash, another escape) is not a pattern of this fragment and is reported as
  the \<open>SyntaxError\<close> that \<open>new RegExp\<close> raises on a malformed source.
\<close>

datatype node = WordBoundary | PatternCharacter char

datatype error = SyntaxError

fun parsePattern :: "string \<Rightarrow> node list option" where
  "parsePattern [] = Some []"
| "parsePattern [c] =
     (if c \<in> set syntaxChars then None else Some [PatternCharacter c])"
| "parsePattern (c # d # ds) =
     (if c = backslash then
        (if d = CHR ''b'' then map_option ((#) WordBoundary) (parsePattern ds)
         else if d \<in> set syntaxChars then map_option ((#) (PatternCharacter d)) (parsePattern ds)
         else None)
      else if c \<in> set syntaxChars then None
      else map_option ((#) (PatternCharacter c)) (parsePattern (d # ds)))"

text \<open>
  A \<open>RegExp\<close> object of the engine: the compiled pattern and the mutable \<open>lastIndex\<close>.
  The flags are always \<open>gi\<close>: matching canonicalises both characters (\<open>i\<close>) and
  \<open>test\<close> starts at \<open>lastIndex\<close> and writes it back (\<open>g\<close>).
\<close>

record RegExp =
  nodes :: "node list"
  lastIndex :: nat

definition new_RegExp :: "string \<Rightarrow> error + RegExp" where
  "new_RegExp src =
     (case parsePattern src of
        None \<Rightarrow> Inl SyntaxError
      | Some ns \<Rightarrow> Inr \<lparr>nodes = ns, lastIndex = 0\<rparr>)"

text \<open>
  \<open>isWordAt input e\<close> is the abstract operation \<open>IsWordChar(e)\<close> of the matcher for
  the index \<open>e\<close> of the character after the position, and \<open>isWordBefore\<close> the same for the
  index before it; a position outside of the input is no word character.
\<close>

definition isWordAt :: "string \<Rightarrow> nat \<Rightarrow> bool" where
  "isWordAt input e = (e < length input \<and> isWordChar (input ! e))"

definition isWordBefore :: "string \<Rightarrow> nat \<Rightarrow> bool" where
  "isWordBefore input e = (0 < e \<and> e - 1 < length input \<and> isWordChar (input ! (e - 1)))"

fun matchNodes :: "node list \<Rightarrow> string \<Rightarrow> nat \<Rightarrow> nat option" where
  "matchNodes [] input e = Some e"
| "matchNodes (WordBoundary # ns) input e =
     (if isWordBefore input e \<noteq> isWordAt input e then matchNodes ns input e else None)"
| "matchNodes (PatternCharacter c # ns) input e =
     (if e < length input \<and> canonicalize (input ! e) = canonicalize c
      then matchNodes ns input (e + 1) else None)"

text \<open>
  \<open>RegExpBuiltinExec\<close>: the search tries every start index from \<open>lastIndex\<close> up to the
  length of the input and returns the end index of the first match.
\<close>

function execFrom :: "node list \<Rightarrow> string \<Rightarrow> nat \<Rightarrow> nat option" where
  "execFrom ns input i =
     (if length input < i then None
      else case matchNodes ns input i of
             Some e \<Rightarrow> Some e
           | None \<Rightarrow> execFrom ns input (i + 1))"
  by pat_completeness auto
termination
  by (relation "measure (\<lambda>(ns, input, i). Suc (length input) - i)") auto

declare execFrom.simps [simp del]

definition RegExp_test :: "RegExp \<Rightarrow> string \<Rightarrow> bool \<times> RegExp" where
  "RegExp_test re input =
     (case execFrom (nodes re) input (lastIndex re) of
        None \<Rightarrow> (False, re\<lparr>lastIndex := 0\<rparr>)
      | Some e \<Rightarrow> (True, re\<lparr>lastIndex := e\<rparr>))"

section \<open>Numbers\<close>

text \<open>
  A JavaScript number is an IEEE 754 double.  The finite doubles are rational numbers, and
  an arithmetic operation returns the exact result rounded to the nearest double, ties to
  the even significand.  \<open>round_double\<close> rounds a rational to 53 significant bits; the
  exponent range is not bounded, which agrees with IEEE 754 between \<open>2\<^sup>-\<^sup>1\<^sup>0\<^sup>2\<^sup>2\<close> and
  \<open>2\<^sup>1\<^sup>0\<^sup>2\<^sup>4\<close> (the numbers of the engine lie between 0.05 and \<open>0.7 + 0.05 * 2\<^sup>3\<^sup>2\<close>,
  the length of an array being below \<open>2\<^sup>3\<^sup>2\<close>).
\<close>

function exp_down :: "rat \<Rightarrow> nat" where
  "exp_down x = (if 2 \<le> x then Suc (exp_down (x / 2)) else 0)"
  by pat_completeness auto
termination
proof (relation "measure (\<lambda>x. nat \<lfloor>x\<rfloor>)")
  fix x :: rat
  assume "2 \<le> x"
  then have "x / 2 \<le> x - 1" by simp
  then have "\<lfloor>x / 2\<rfloor> \<le> \<lfloor>x - 1\<rfloor>" by (rule floor_mono)
  moreover have "1 \<le> \<lfloor>x\<rfloor>" using \<open>2 \<le> x\<close> by linarith
  ultimately show "(x / 2, x) \<in> measure (\<lambda>x. nat \<lfloor>x\<rfloor>)" by simp
qed simp

function exp_up :: "rat \<Rightarrow> nat" where
  "exp_up x = (if 0 < x \<and> x < 1 then Suc (exp_up (2 * x)) else 0)"
  by pat_completeness auto
termination
proof (relation "measure (\<lambda>x. nat \<lceil>1 / x\<rceil>)")
  fix x :: rat
  assume a: "0 < x \<and> x < 1"
  then have "1 < 1 / x" by simp
  then have two: "2 \<le> \<lceil>1 / x\<rceil>" by linarith
  have "1 / (2 * x) = (1 / x) / 2" by simp
  also have "\<dots> \<le> of_int \<lceil>1 / x\<rceil> / 2" by (simp add: divide_right_mono)
  also have "\<dots> \<le> of_int (\<lceil>1 / x\<rceil> - 1)" using two by simp
  finally have "\<lceil>1 / (2 * x)\<rceil> \<le> \<lceil>1 / x\<rceil> - 1" by (rule ceiling_le)
  then show "(2 * x, x) \<in> measure (\<lambda>x. nat \<lceil>1 / x\<rceil>)" using two a by simp
qed simp

declare exp_down.simps [simp del] exp_up.simps [simp del]

definition exponent :: "rat \<Rightarrow> int" where
  "exponent x = (if 1 \<le> x then int (exp_down x) else - int (exp_up x))"

definition pow2 :: "int \<Rightarrow> rat" where
  "pow2 k = (if 0 \<le> k then 2 ^ nat k else 1 / 2 ^ nat (- k))"

definition roundTiesToEven :: "rat \<Rightarrow> int" where
  "roundTiesToEven y =
     (let f = \<lfloor>y\<rfloor>; r = y - of_int f
      in if r < 1 / 2 then f else if 1 / 2 < r then f + 1 else if even f then f else f + 1)"

definition round_double :: "rat \<Rightarrow> rat" where
  "round_double x =
     (if x = 0 then 0
      else let u = pow2 (exponent \<bar>x\<bar> - 52)
           in sgn x * (of_int (roundTiesToEven (\<bar>x\<bar> / u)) * u))"

definition double_lit :: "rat \<Rightarrow> rat" where
  "double_lit x = round_double x"

definition fadd :: "rat \<Rightarrow> rat \<Rightarrow> rat" where
  "fadd a b = round_double (a + b)"

definition fmul :: "rat \<Rightarrow> rat \<Rightarrow> rat" where
  "fmul a b = round_double (a * b)"

definition Math_min :: "rat \<Rightarrow> rat \<Rightarrow> rat" where
  "Math_min a b = min a b"

section \<open>The engine\<close>

record LinguisticTerm =
  term_s :: string
  meaning :: string
  category :: string

record CompiledPattern = LinguisticTerm +
  regex :: RegExp

record TranslationResult =
  original :: string
  terms :: "LinguisticTerm list"
  confidence :: rat
  translatedText :: string

record LinguisticsEngine =
  patterns :: "CompiledPattern list"
  dynamicPatterns :: "(string \<times> CompiledPattern) list"

definition GEN_Z_terms :: "(string \<times> string) list" where
  "GEN_Z_terms = [
    (''slay'', ''excel exceptionally''), (''ate'', ''nailed it''),
    (''period'', ''emphatic agreement''), (''periodt'', ''emphatic agreement''),
    (''no cap'', ''honestly''), (''cap'', ''lie''), (''bussin'', ''extremely good''),
    (''mid'', ''mediocre''), (''sus'', ''suspicious''), (''bet'', ''confirmed''),
    (''vibe'', ''atmosphere''), (''vibing'', ''relaxing''), (''lowkey'', ''secretly''),
    (''highkey'', ''obviously''), (''deadass'', ''seriously''), (''fr fr'', ''legitimately''),
    (''fr'', ''legit''), (''ngl'', ''truthfully''), (''iykyk'', ''insider knowledge''),
    (''ong'', ''sworn truth''), (''snatched'', ''perfect''), (''fire'', ''excellent''),
    (''lit'', ''exciting''), (''goat'', ''greatest''), (''goated'', ''greatest''),
    (''valid'', ''acceptable''), (''hits different'', ''unique impact''),
    (''rent free'', ''obsessive thought''),
    (''understood the assignment'', ''executed perfectly''),
    (''main character'', ''protagonist energy''), (''npc'', ''irrelevant person''),
    (''simp'', ''sycophant''), (''stan'', ''superfan''), (''ratio'', ''outperformed''),
    (''L'', ''failure''), (''W'', ''success''), (''big W'', ''major success''),
    (''big L'', ''major failure''), (''based'', ''courageous''),
    (''cringe'', ''embarrassing''), (''cheugy'', ''dated''), (''slaps'', ''excellent''),
    (''banger'', ''hit''), (''sending me'', ''hilarious''), (''im dead'', ''hilarious''),
    (''its giving'', ''reminiscent of''), (''caught in 4k'', ''undeniable proof''),
    (''receipts'', ''evidence''), (''tea'', ''gossip'')]"

definition AAVE_terms :: "(string \<times> string) list" where
  "AAVE_terms = [
    (''finna'', ''preparing to''), (''gonna'', ''going to''), (''tryna'', ''attempting to''),
    (''boutta'', ''about to''), (''ion'', ''I do not''), (''aint'', ''is not''),
    (''fam'', ''team''), (''bruh'', ''friend''), (''sis'', ''friend''), (''cuz'', ''friend''),
    (''dawg'', ''friend''), (''homie'', ''friend''), (''squad'', ''team''),
    (''crew'', ''team''), (''whip'', ''vehicle''), (''crib'', ''residence''),
    (''drip'', ''style''), (''drippin'', ''stylish''), (''swag'', ''style''),
    (''fresh'', ''new''), (''fly'', ''stylish''), (''dope'', ''excellent''),
    (''tight'', ''cool''), (''woke'', ''aware''), (''trippin'', ''irrational''),
    (''wildin'', ''out of control''), (''buggin'', ''wrong''), (''flexin'', ''boasting''),
    (''flex'', ''boast''), (''frontin'', ''pretending''), (''on god'', ''truthfully''),
    (''word'', ''agreed''), (''facts'', ''correct''), (''straight up'', ''honestly''),
    (''real talk'', ''seriously''), (''keep it real'', ''be authentic''),
    (''keep it 100'', ''be authentic''), (''fo sho'', ''certainly''),
    (''fasho'', ''certainly''), (''aight'', ''ok''), (''yeet'', ''discard''),
    (''salty'', ''bitter''), (''shook'', ''shocked''), (''pressed'', ''upset''),
    (''heated'', ''angry''), (''geeked'', ''excited''), (''hype'', ''excited''),
    (''turnt'', ''energized''), (''bougie'', ''high-class''), (''ratchet'', ''unrefined''),
    (''basic'', ''generic''), (''extra'', ''dramatic'')]"

definition TECH_terms :: "(string \<times> string) list" where
  "TECH_terms = [
    (''ship it'', ''deploy''), (''push to prod'', ''deploy''),
    (''yolo deploy'', ''risky deploy''), (''hotfix'', ''patch''), (''nuke it'', ''reset''),
    (''refactor'', ''restructure''), (''spaghetti code'', ''messy code''),
    (''tech debt'', ''maintenance cost''), (''legacy code'', ''old system''),
    (''greenfield'', ''new project''), (''brownfield'', ''existing project''),
    (''yak shaving'', ''distraction''), (''bikeshedding'', ''trivial debate''),
    (''rubber duck'', ''debug''), (''dogfooding'', ''internal testing''),
    (''scope creep'', ''expansion''), (''mvp'', ''prototype''),
    (''poc'', ''proof of concept''), (''standup'', ''daily meeting''), (''retro'', ''review''),
    (''sprint'', ''cycle''), (''backlog'', ''queue''), (''blocker'', ''impediment''),
    (''ping'', ''notify''), (''sync'', ''align''), (''async'', ''offline''),
    (''circle back'', ''revisit''), (''deep dive'', ''investigate''),
    (''bandwidth'', ''capacity''), (''runway'', ''budget''),
    (''north star'', ''primary goal''), (''low hanging fruit'', ''easy tasks''),
    (''moonshot'', ''ambitious goal''), (''10x'', ''high performance''),
    (''ninja'', ''expert''), (''rockstar'', ''expert''), (''unicorn'', ''rare asset''),
    (''full stack'', ''complete system''), (''api'', ''interface''),
    (''crud'', ''data operations''), (''microservices'', ''modular architecture''),
    (''monolith'', ''single system''), (''spin up'', ''initialize''), (''scale'', ''grow''),
    (''ci cd'', ''automation''), (''devops'', ''operations'')]"

definition STARTUP_terms :: "(string \<times> string) list" where
  "STARTUP_terms = [
    (''disrupt'', ''transform''), (''pivot'', ''change strategy''),
    (''hockey stick'', ''rapid growth''), (''bootstrapped'', ''self-funded''),
    (''vc'', ''investor''), (''series a'', ''funding round''), (''seed'', ''initial funding''),
    (''angel'', ''investor''), (''exit'', ''acquisition''), (''ipo'', ''public offering''),
    (''acquisition'', ''purchase''), (''burn'', ''spend rate''),
    (''cap table'', ''ownership''), (''valuation'', ''worth''), (''moat'', ''defense''),
    (''product market fit'', ''viability''), (''pmf'', ''viability''),
    (''tam'', ''market size''), (''b2b'', ''business sales''), (''b2c'', ''consumer sales''),
    (''saas'', ''software service''), (''arr'', ''annual revenue''),
    (''mrr'', ''monthly revenue''), (''ltv'', ''lifetime value''),
    (''cac'', ''acquisition cost''), (''churn'', ''attrition''), (''retention'', ''loyalty''),
    (''viral loop'', ''growth cycle''), (''growth hack'', ''strategy''),
    (''lean'', ''efficient''), (''agile'', ''flexible''), (''iterate'', ''improve''),
    (''fail fast'', ''learn'')]"

definition DESIGN_terms :: "(string \<times> string) list" where
  "DESIGN_terms = [
    (''wireframe'', ''layout''), (''mockup'', ''preview''), (''prototype'', ''demo''),
    (''high fidelity'', ''detailed''), (''low fidelity'', ''rough''),
    (''pixel perfect'', ''precise''), (''responsive'', ''adaptive''),
    (''mobile first'', ''mobile-optimized''), (''above the fold'', ''visible area''),
    (''hero'', ''banner''), (''cta'', ''button''), (''hamburger'', ''menu icon''),
    (''breadcrumb'', ''path''), (''carousel'', ''slider''), (''modal'', ''overlay''),
    (''toast'', ''notification''), (''skeleton'', ''placeholder''),
    (''lazy load'', ''deferred loading''), (''whitespace'', ''spacing''),
    (''visual hierarchy'', ''structure''), (''user flow'', ''path''),
    (''happy path'', ''ideal scenario''), (''edge case'', ''rare scenario''),
    (''accessibility'', ''usability''), (''a11y'', ''usability''),
    (''hover state'', ''interaction''), (''loading state'', ''waiting''),
    (''error state'', ''failure''), (''empty state'', ''blank''),
    (''onboarding'', ''tutorial''), (''tooltip'', ''hint''), (''dropdown'', ''menu''),
    (''debounce'', ''delay'')]"

definition SOUTHERN_terms :: "(string \<times> string) list" where
  "SOUTHERN_terms = [
    (''yall'', ''everyone''), (''fixin to'', ''preparing to''),
    (''might could'', ''possibly can''), (''over yonder'', ''there''),
    (''reckon'', ''suppose''), (''cattywampus'', ''askew''), (''mash'', ''press''),
    (''cut on'', ''activate''), (''cut off'', ''deactivate''), (''buggy'', ''cart''),
    (''coke'', ''soda''), (''supper'', ''dinner''), (''hankering'', ''craving''),
    (''tuckered out'', ''tired''), (''plumb'', ''completely''),
    (''right smart'', ''significant''), (''bless your heart'', ''sympathy''),
    (''hold your horses'', ''wait''), (''happy as a clam'', ''joyful''),
    (''madder than a wet hen'', ''furious''), (''slower than molasses'', ''slow''),
    (''fit to be tied'', ''angry''), (''come hell or high water'', ''determined'')]"

definition UK_terms :: "(string \<times> string) list" where
  "UK_terms = [
    (''brilliant'', ''excellent''), (''bloody'', ''very''), (''blimey'', ''wow''),
    (''bollocks'', ''nonsense''), (''rubbish'', ''garbage''), (''dodgy'', ''unreliable''),
    (''cheeky'', ''playful''), (''cheers'', ''thanks''), (''mate'', ''friend''),
    (''bloke'', ''man''), (''lad'', ''boy''), (''lass'', ''girl''), (''knackered'', ''tired''),
    (''gutted'', ''disappointed''), (''chuffed'', ''happy''), (''gobsmacked'', ''shocked''),
    (''miffed'', ''annoyed''), (''skint'', ''broke''), (''quid'', ''pound''),
    (''tenner'', ''ten pounds''), (''fiver'', ''five pounds''), (''fortnight'', ''two weeks''),
    (''queue'', ''line''), (''loo'', ''restroom''), (''lift'', ''elevator''),
    (''flat'', ''apartment''), (''sorted'', ''resolved''), (''spot on'', ''accurate'')]"

definition HIPHOP_terms :: "(string \<times> string) list" where
  "HIPHOP_terms = [
    (''bars'', ''lyrics''), (''flow'', ''rhythm''), (''beat'', ''instrumental''),
    (''drop'', ''release''), (''bop'', ''song''), (''goes hard'', ''intense''),
    (''heat'', ''quality''), (''certified'', ''verified''), (''platinum'', ''successful''),
    (''underground'', ''indie''), (''collab'', ''collaboration''), (''feature'', ''guest''),
    (''remix'', ''revision''), (''sample'', ''excerpt''), (''hook'', ''chorus''),
    (''verse'', ''stanza''), (''chorus'', ''refrain''), (''producer'', ''composer''),
    (''dj'', ''selector''), (''mc'', ''lyricist''), (''cypher'', ''freestyle''),
    (''freestyle'', ''improv''), (''pen game'', ''writing''), (''wordplay'', ''wit''),
    (''punchline'', ''climax''), (''trap'', ''genre''), (''drill'', ''genre''),
    (''boom bap'', ''genre''), (''lo-fi'', ''aesthetic'')]"

definition GAMING_terms :: "(string \<times> string) list" where
  "GAMING_terms = [
    (''gg'', ''good game''), (''ggez'', ''easy win''), (''wp'', ''well played''),
    (''glhf'', ''good luck''), (''nerf'', ''weaken''), (''buff'', ''strengthen''),
    (''meta'', ''strategy''), (''op'', ''powerful''), (''broken'', ''unbalanced''),
    (''noob'', ''beginner''), (''pro'', ''expert''), (''tryhard'', ''competitive''),
    (''sweaty'', ''intense''), (''grind'', ''work''), (''farm'', ''gather''),
    (''spawn'', ''appear''), (''respawn'', ''reappear''), (''frag'', ''eliminate''),
    (''clutch'', ''save''), (''throw'', ''fail''), (''carry'', ''support''),
    (''feed'', ''fail repeatedly''), (''camp'', ''wait''), (''gank'', ''ambush''),
    (''tank'', ''defender''), (''dps'', ''attacker''), (''healer'', ''support''),
    (''cooldown'', ''wait time''), (''ult'', ''ultimate''), (''combo'', ''sequence''),
    (''cheese'', ''exploit''), (''strat'', ''plan''), (''ping'', ''latency''),
    (''lag'', ''delay''), (''fps'', ''framerate'')]"

definition HISPANIC_terms :: "(string \<times> string) list" where
  "HISPANIC_terms = [
    (''no mames'', ''impossible''), (''orale'', ''ok''), (''andale'', ''hurry''),
    (''hijole'', ''wow''), (''chido'', ''cool''), (''padre'', ''cool''), (''neta'', ''truth''),
    (''la neta'', ''truth''), (''que onda'', ''hello''), (''no manches'', ''impossible''),
    (''guey'', ''friend''), (''ese'', ''friend''), (''vato'', ''guy''),
    (''carnal'', ''brother''), (''compa'', ''friend''), (''firme'', ''solid''),
    (''suave'', ''smooth''), (''loco'', ''crazy''), (''feria'', ''money''),
    (''lana'', ''money''), (''troca'', ''truck''), (''ranfla'', ''car''), (''jale'', ''job''),
    (''chamba'', ''work''), (''pachanga'', ''party''), (''mija'', ''dear''),
    (''mijo'', ''dear''), (''familia'', ''family'')]"

definition EMOTIONAL_terms :: "(string \<times> string) list" where
  "EMOTIONAL_terms = [
    (''shook'', ''shocked''), (''triggered'', ''upset''), (''salty'', ''bitter''),
    (''pressed'', ''stressed''), (''heated'', ''angry''), (''gagged'', ''stunned''),
    (''slayed'', ''impressed''), (''deceased'', ''laughing''), (''dead'', ''laughing''),
    (''obsessed'', ''fixated''), (''living'', ''enjoying''), (''thriving'', ''prospering''),
    (''struggling'', ''failing''), (''big mood'', ''relatable''), (''mood'', ''relatable''),
    (''same'', ''agreed''), (''felt that'', ''empathized''), (''i cant'', ''overwhelmed''),
    (''im weak'', ''laughing''), (''im done'', ''finished''), (''over it'', ''moved on''),
    (''unbothered'', ''calm''), (''blessed'', ''grateful''), (''stressed'', ''anxious''),
    (''hyped'', ''excited''), (''stoked'', ''excited'')]"

definition LINGUISTICS :: "(string \<times> (string \<times> string) list) list" where
  "LINGUISTICS = [
    (''GEN_Z'', GEN_Z_terms),
    (''AAVE'', AAVE_terms),
    (''TECH'', TECH_terms),
    (''STARTUP'', STARTUP_terms),
    (''DESIGN'', DESIGN_terms),
    (''SOUTHERN'', SOUTHERN_terms),
    (''UK'', UK_terms),
    (''HIPHOP'', HIPHOP_terms),
    (''GAMING'', GAMING_terms),
    (''HISPANIC'', HISPANIC_terms),
    (''EMOTIONAL'', EMOTIONAL_terms)]"
text \<open>
  The category of an entry is a string: \<open>LinguisticCategory\<close> is a union of string
  literals that is erased at run time, and \<open>loadDynamicTerms\<close> takes any string for it.
  A compiled pattern is an entry together with its \<open>RegExp\<close> object.
\<close>

definition entryOf :: "CompiledPattern \<Rightarrow> LinguisticTerm" where
  "entryOf pattern =
     \<lparr>term_s = term_s pattern, meaning = meaning pattern, category = category pattern\<rparr>"

definition compilePattern :: "string \<Rightarrow> string \<Rightarrow> string \<Rightarrow> error + CompiledPattern" where
  "compilePattern slang m cat =
     (let escaped = escapeRegExp slang
      in case new_RegExp ([backslash, CHR ''b''] @ escaped @ [backslash, CHR ''b'']) of
           Inl err \<Rightarrow> Inl err
         | Inr re \<Rightarrow> Inr \<lparr>term_s = slang, meaning = m, category = cat, regex = re\<rparr>)"

text \<open>
  \<open>Array.prototype.sort\<close> with a comparator is a stable sort: an element is placed before
  the first element that it does not have to follow.
\<close>

fun insert_sorted :: "('a \<Rightarrow> 'a \<Rightarrow> int) \<Rightarrow> 'a \<Rightarrow> 'a list \<Rightarrow> 'a list" where
  "insert_sorted cmp x [] = [x]"
| "insert_sorted cmp x (y # ys) =
     (if cmp x y \<le> 0 then x # y # ys else y # insert_sorted cmp x ys)"

definition array_sort :: "('a \<Rightarrow> 'a \<Rightarrow> int) \<Rightarrow> 'a list \<Rightarrow> 'a list" where
  "array_sort cmp xs = foldr (insert_sorted cmp) xs []"

definition byTermLength :: "CompiledPattern \<Rightarrow> CompiledPattern \<Rightarrow> int" where
  "byTermLength a b = int (length (term_s b)) - int (length (term_s a))"

fun compileTerms ::
  "string \<Rightarrow> (string \<times> string) list \<Rightarrow> CompiledPattern list \<Rightarrow> error + CompiledPattern list"
where
  "compileTerms cat [] allTerms = Inr allTerms"
| "compileTerms cat ((slang, m) # rest) allTerms =
     (case compilePattern slang m cat of
        Inl err \<Rightarrow> Inl err
      | Inr p \<Rightarrow> compileTerms cat rest (allTerms @ [p]))"

fun compileCategories ::
  "(string \<times> (string \<times> string) list) list \<Rightarrow> CompiledPattern list \<Rightarrow> error + CompiledPattern list"
where
  "compileCategories [] allTerms = Inr allTerms"
| "compileCategories ((cat, ts) # rest) allTerms =
     (case compileTerms cat ts allTerms of
        Inl err \<Rightarrow> Inl err
      | Inr allTerms' \<Rightarrow> compileCategories rest allTerms')"

definition new_LinguisticsEngine :: "error + LinguisticsEngine" where
  "new_LinguisticsEngine =
     (case compileCategories LINGUISTICS [] of
        Inl err \<Rightarrow> Inl err
      | Inr allTerms \<Rightarrow>
          Inr \<lparr>patterns = array_sort byTermLength allTerms, dynamicPatterns = []\<rparr>)"

text \<open>
  The dynamic store is a \<open>Map\<close>: \<open>set\<close> replaces the value of a key that is present, at
  its place, and appends a new key; the values are iterated in that order.
\<close>

fun Map_set :: "'k \<Rightarrow> 'v \<Rightarrow> ('k \<times> 'v) list \<Rightarrow> ('k \<times> 'v) list" where
  "Map_set k v [] = [(k, v)]"
| "Map_set k v ((k', v') # m) = (if k' = k then (k, v) # m else (k', v') # Map_set k v m)"

definition addDynamicTerm ::
  "string \<Rightarrow> string \<Rightarrow> string \<Rightarrow> LinguisticsEngine \<Rightarrow> error + LinguisticsEngine" where
  "addDynamicTerm t m cat e =
     (case compilePattern t m cat of
        Inl err \<Rightarrow> Inl err
      | Inr p \<Rightarrow>
          Inr (e\<lparr>dynamicPatterns := Map_set (toLowerCase t) p (dynamicPatterns e)\<rparr>))"

fun loadDynamicTerms :: "LinguisticTerm list \<Rightarrow> LinguisticsEngine \<Rightarrow> error + LinguisticsEngine" where
  "loadDynamicTerms [] e = Inr e"
| "loadDynamicTerms (t # ts) e =
     (case addDynamicTerm (term_s t) (meaning t) (category t) e of
        Inl err \<Rightarrow> Inl err
      | Inr e' \<Rightarrow> loadDynamicTerms ts e')"

text \<open>
  The two loops of \<open>translate\<close> have the same body.  \<open>testPatterns\<close> runs it over a list of
  patterns and returns the patterns (whose \<open>lastIndex\<close> the loop writes), \<open>found\<close> and
  \<open>foundSet\<close>.
\<close>

fun testPatterns ::
  "CompiledPattern list \<Rightarrow> string \<Rightarrow> LinguisticTerm list \<Rightarrow> string set \<Rightarrow>
     CompiledPattern list \<times> LinguisticTerm list \<times> string set"
where
  "testPatterns [] input found foundSet = ([], found, foundSet)"
| "testPatterns (pattern # rest) input found foundSet =
     (case RegExp_test (regex pattern) input of
        (True, re) \<Rightarrow>
          (let key = term_s pattern @ '':'' @ category pattern;
               (found', foundSet') =
                  (if key \<notin> foundSet then (found @ [entryOf pattern], insert key foundSet)
                   else (found, foundSet));
               (rest', r) = testPatterns rest input found' foundSet'
           in (pattern\<lparr>regex := re\<lparr>lastIndex := 0\<rparr>\<rparr> # rest', r))
      | (False, re) \<Rightarrow>
          (let (rest', r) = testPatterns rest input found foundSet
           in (pattern\<lparr>regex := re\<rparr> # rest', r)))"

definition translate :: "LinguisticsEngine \<Rightarrow> string \<Rightarrow> TranslationResult \<times> LinguisticsEngine" where
  "translate e input =
     (if input = [] then
        (\<lparr>original = [], terms = [], confidence = 1, translatedText = input\<rparr>, e)
      else
        let (ps, found, foundSet) = testPatterns (patterns e) input [] {};
            (ds, found', foundSet') =
               testPatterns (map snd (dynamicPatterns e)) input found foundSet
        in (\<lparr>original = input, terms = found',
             confidence =
               Math_min 1 (fadd (double_lit (7 / 10)) (fmul (of_nat (length found')) (double_lit (5 / 100)))),
             translatedText = input\<rparr>,
            e\<lparr>patterns := ps, dynamicPatterns := zip (map fst (dynamicPatterns e)) ds\<rparr>))"

text \<open>
  The states of the module's engine: the constructed engine, and whatever a call of one of
  its methods leaves.
\<close>

inductive reachable :: "LinguisticsEngine \<Rightarrow> bool" where
  constructed: "new_LinguisticsEngine = Inr e \<Longrightarrow> reachable e"
| added: "reachable e \<Longrightarrow> addDynamicTerm t m cat e = Inr e' \<Longrightarrow> reachable e'"
| loaded: "reachable e \<Longrightarrow> loadDynamicTerms ts e = Inr e' \<Longrightarrow> reachable e'"
| translated: "reachable e \<Longrightarrow> translate e input = (r, e') \<Longrightarrow> reachable e'"

lemma backslash_syntax: "backslash \<in> set syntaxChars"
  by (simp add: syntaxChars_def)

lemma b_not_syntax: "CHR ''b'' \<notin> set syntaxChars"
  by (simp add: syntaxChars_def backslash_def)

lemma parsePattern_plain:
  "c \<notin> set syntaxChars \<Longrightarrow> parsePattern (c # cs) = map_option ((#) (PatternCharacter c)) (parsePattern cs)"
  using backslash_syntax by (cases cs) auto

lemma parsePattern_escaped:
  "c \<in> set syntaxChars \<Longrightarrow>
   parsePattern (backslash # c # cs) = map_option ((#) (PatternCharacter c)) (parsePattern cs)"
  using b_not_syntax by auto

lemma parsePattern_boundary:
  "parsePattern (backslash # CHR ''b'' # cs) = map_option ((#) WordBoundary) (parsePattern cs)"
  by simp

lemma parsePattern_escapeRegExp:
  "parsePattern (escapeRegExp t @ rest) =
     map_option ((@) (map PatternCharacter t)) (parsePattern rest)"
proof (induction t)
  case Nil
  show ?case by (simp add: option.map_ident)
next
  case (Cons c t)
  show ?case
  proof (cases "c \<in> set syntaxChars")
    case True
    have "parsePattern (backslash # c # (escapeRegExp t @ rest)) =
            map_option ((#) (PatternCharacter c)) (parsePattern (escapeRegExp t @ rest))"
      using True by (rule parsePattern_escaped)
    then show ?thesis
      using True Cons.IH by (simp add: option.map_comp comp_def)
  next
    case False
    have "parsePattern (c # (escapeRegExp t @ rest)) =
            map_option ((#) (PatternCharacter c)) (parsePattern (escapeRegExp t @ rest))"
      using False by (rule parsePattern_plain)
    then show ?thesis
      using False Cons.IH by (simp add: option.map_comp comp_def)
  qed
qed

definition termNodes :: "string \<Rightarrow> node list" where
  "termNodes t = WordBoundary # map PatternCharacter t @ [WordBoundary]"

lemma parsePattern_source:
  "parsePattern ([backslash, CHR ''b''] @ escapeRegExp t @ [backslash, CHR ''b'']) = Some (termNodes t)"
  by (simp only: append_Cons append_Nil parsePattern_boundary parsePattern_escapeRegExp)
     (simp add: termNodes_def)

definition mkPattern :: "string \<Rightarrow> string \<Rightarrow> string \<Rightarrow> CompiledPattern" where
  "mkPattern t m cat =
     \<lparr>term_s = t, meaning = m, category = cat,
      regex = \<lparr>nodes = termNodes t, lastIndex = 0\<rparr>\<rparr>"

lemma compilePattern_eq: "compilePattern t m cat = Inr (mkPattern t m cat)"
  unfolding compilePattern_def new_RegExp_def Let_def mkPattern_def
  by (simp only: parsePattern_source option.case sum.case)

definition canonCode :: "nat \<Rightarrow> nat" where
  "canonCode n = (if (97 \<le> n \<and> n \<le> 122) \<or> (224 \<le> n \<and> n \<le> 254 \<and> n \<noteq> 247) then n - 32 else n)"

definition lowerCode :: "nat \<Rightarrow> nat" where
  "lowerCode n = (if (65 \<le> n \<and> n \<le> 90) \<or> (192 \<le> n \<and> n \<le> 222 \<and> n \<noteq> 215) then n + 32 else n)"

definition wordCode :: "nat \<Rightarrow> bool" where
  "wordCode n = ((97 \<le> n \<and> n \<le> 122) \<or> (65 \<le> n \<and> n \<le> 90) \<or> (48 \<le> n \<and> n \<le> 57) \<or> n = 95)"

lemma canonicalize_code: "canonicalize c = char_of (canonCode (of_char c))"
  by (simp add: canonicalize_def canonCode_def Let_def)

lemma toLowerCase_char_code: "toLowerCase_char c = char_of (lowerCode (of_char c))"
  by (simp add: toLowerCase_char_def lowerCode_def Let_def)

lemma char_of_inj_256: "n < 256 \<Longrightarrow> m < 256 \<Longrightarrow> (char_of n :: char) = char_of (m::nat) \<longleftrightarrow> n = m"
  by (simp add: char_of_eq_iff take_bit_nat_eq_self)

lemma canonCode_lt: "n < 256 \<Longrightarrow> canonCode n < 256"
  by (auto simp add: canonCode_def)

lemma lowerCode_lt: "n < 256 \<Longrightarrow> lowerCode n < 256"
  by (auto simp add: lowerCode_def)

lemma lower_canon: "lowerCode (canonCode n) = lowerCode n"
  unfolding canonCode_def lowerCode_def by (auto split: if_splits)

lemma canon_lower: "canonCode (lowerCode n) = canonCode n"
  unfolding canonCode_def lowerCode_def by (auto split: if_splits)

lemma word_canon: "wordCode (canonCode n) = wordCode n"
  unfolding canonCode_def wordCode_def by (auto split: if_splits)

lemma code_fold_iff: "canonCode n = canonCode m \<longleftrightarrow> lowerCode n = lowerCode m"
  by (metis lower_canon canon_lower)

lemma canonicalize_eq_iff:
  "canonicalize a = canonicalize b \<longleftrightarrow> toLowerCase_char a = toLowerCase_char b"
  by (simp add: canonicalize_code toLowerCase_char_code char_of_inj_256 canonCode_lt lowerCode_lt
      code_fold_iff)

lemma canonicalize_isWordChar:
  assumes "canonicalize a = canonicalize b"
  shows "isWordChar a = isWordChar b"
proof -
  have "canonCode (of_char a) = canonCode (of_char b)"
    using assms by (simp add: canonicalize_code char_of_inj_256 canonCode_lt)
  then have "wordCode (of_char a) = wordCode (of_char b)"
    by (metis word_canon)
  then show ?thesis
    by (simp add: isWordChar_def wordCode_def Let_def)
qed

definition boundaryAt :: "string \<Rightarrow> nat \<Rightarrow> bool" where
  "boundaryAt input e = (isWordBefore input e \<noteq> isWordAt input e)"

definition literalAt :: "string \<Rightarrow> string \<Rightarrow> nat \<Rightarrow> bool" where
  "literalAt t input e =
     (e + length t \<le> length input \<and>
      map canonicalize (take (length t) (drop e input)) = map canonicalize t)"

lemma literalAt_Nil: "literalAt [] input e = (e \<le> length input)"
  by (simp add: literalAt_def)

lemma literalAt_Cons:
  "literalAt (c # t) input e =
     (e < length input \<and> canonicalize (input ! e) = canonicalize c \<and> literalAt t input (Suc e))"
proof (cases "e < length input")
  case True
  then have "drop e input = input ! e # drop (Suc e) input"
    by (simp add: Cons_nth_drop_Suc)
  then show ?thesis
    using True by (auto simp add: literalAt_def)
next
  case False
  then show ?thesis by (simp add: literalAt_def)
qed

lemma matchNodes_literal:
  "e \<le> length input \<Longrightarrow>
   matchNodes (map PatternCharacter t @ ns) input e =
     (if literalAt t input e then matchNodes ns input (e + length t) else None)"
proof (induction t arbitrary: e)
  case Nil
  then show ?case by (simp add: literalAt_Nil)
next
  case (Cons c t)
  show ?case
  proof (cases "e < length input \<and> canonicalize (input ! e) = canonicalize c")
    case True
    then have "Suc e \<le> length input" by simp
    from Cons.IH [OF this] True show ?thesis
      by (simp add: literalAt_Cons)
  next
    case False
    then show ?thesis by (auto simp add: literalAt_Cons)
  qed
qed

definition matchAt :: "string \<Rightarrow> string \<Rightarrow> nat \<Rightarrow> bool" where
  "matchAt t input e =
     (boundaryAt input e \<and> literalAt t input e \<and> boundaryAt input (e + length t))"

lemma matchNodes_termNodes:
  "e \<le> length input \<Longrightarrow>
   matchNodes (termNodes t) input e = (if matchAt t input e then Some (e + length t) else None)"
  by (simp add: termNodes_def matchNodes_literal matchAt_def boundaryAt_def)

lemma execFrom_None_iff:
  "execFrom ns input i = None \<longleftrightarrow>
     (\<forall>j. i \<le> j \<and> j \<le> length input \<longrightarrow> matchNodes ns input j = None)"
proof (induction ns input i rule: execFrom.induct)
  case (1 ns input i)
  show ?case
  proof (cases "length input < i")
    case True
    then show ?thesis by (auto simp add: execFrom.simps)
  next
    case False
    show ?thesis
    proof (cases "matchNodes ns input i")
      case None
      have "(\<forall>j. i \<le> j \<and> j \<le> length input \<longrightarrow> matchNodes ns input j = None) \<longleftrightarrow>
            (\<forall>j. i + 1 \<le> j \<and> j \<le> length input \<longrightarrow> matchNodes ns input j = None)"
        using None by (metis Suc_eq_plus1 Suc_leI le_neq_implies_less add_leD1 le_add1 order_trans)
      then show ?thesis
        using "1.IH" [OF False None] None False by (simp add: execFrom.simps [of ns input i])
    next
      case (Some e)
      then show ?thesis
        using False by (auto simp add: execFrom.simps [of ns input i])
    qed
  qed
qed

definition matches :: "CompiledPattern \<Rightarrow> string \<Rightarrow> bool" where
  "matches p input = fst (RegExp_test (regex p) input)"

lemma fst_RegExp_test:
  "fst (RegExp_test re input) \<longleftrightarrow> execFrom (nodes re) input (lastIndex re) \<noteq> None"
  by (simp add: RegExp_test_def split: option.splits)

lemma matches_mkPattern:
  "matches (mkPattern t m cat) input \<longleftrightarrow> (\<exists>j\<le>length input. matchAt t input j)"
  by (auto simp add: matches_def fst_RegExp_test mkPattern_def execFrom_None_iff
      matchNodes_termNodes)

text \<open>
  The matcher as the specification words it: the term occurs in the text, compared without
  regard to case, with a non-word character or the start of the text before it and a
  non-word character or the end of the text after it.
\<close>

definition ciEqual :: "string \<Rightarrow> string \<Rightarrow> bool" where
  "ciEqual a b = (toLowerCase a = toLowerCase b)"

definition occursBounded :: "string \<Rightarrow> string \<Rightarrow> bool" where
  "occursBounded t s =
     (\<exists>i\<in>set [0..<Suc (length s)].
        i + length t \<le> length s \<and>
        ciEqual (take (length t) (drop i s)) t \<and>
        (i = 0 \<or> \<not> isWordChar (s ! (i - 1))) \<and>
        (i + length t = length s \<or> \<not> isWordChar (s ! (i + length t))))"

lemma map_canonicalize_eq_iff:
  "map canonicalize xs = map canonicalize ys \<longleftrightarrow> ciEqual xs ys"
proof (induction xs arbitrary: ys)
  case Nil
  show ?case by (auto simp add: ciEqual_def toLowerCase_def)
next
  case (Cons x xs)
  show ?case
  proof (cases ys)
    case Nil
    then show ?thesis by (simp add: ciEqual_def toLowerCase_def)
  next
    case (Cons y ys')
    then show ?thesis
      using Cons.IH [of ys'] by (simp add: ciEqual_def toLowerCase_def canonicalize_eq_iff)
  qed
qed

lemma literalAt_ciEqual:
  "literalAt t s i \<longleftrightarrow> i + length t \<le> length s \<and> ciEqual (take (length t) (drop i s)) t"
  by (simp add: literalAt_def map_canonicalize_eq_iff)

lemma literalAt_nth:
  assumes "literalAt t s i" and "k < length t"
  shows "canonicalize (s ! (i + k)) = canonicalize (t ! k)"
proof -
  from assms(1) have len: "i + length t \<le> length s"
    and eq: "map canonicalize (take (length t) (drop i s)) = map canonicalize t"
    by (simp_all add: literalAt_def)
  have "map canonicalize (take (length t) (drop i s)) ! k = map canonicalize t ! k"
    by (simp only: eq)
  then show ?thesis
    using assms(2) len by (simp add: add.commute)
qed

lemma literalAt_edges:
  assumes "literalAt t s i" and "t \<noteq> []" and "isWordChar (hd t)" and "isWordChar (last t)"
  shows "isWordAt s i" and "isWordBefore s (i + length t)"
proof -
  from assms(1) have len: "i + length t \<le> length s" by (simp add: literalAt_def)
  from assms(2) have pos: "0 < length t" by simp
  from len pos have lt: "i < length s" by linarith
  have "canonicalize (s ! (i + 0)) = canonicalize (t ! 0)"
    using assms(1) pos by (rule literalAt_nth)
  then have "isWordChar (s ! (i + 0)) = isWordChar (t ! 0)"
    by (rule canonicalize_isWordChar)
  then have "isWordChar (s ! i)"
    using assms(2,3) by (simp add: hd_conv_nth)
  then show "isWordAt s i"
    using lt by (simp add: isWordAt_def)
  have "length t - 1 < length t" using pos by linarith
  with assms(1)
  have "canonicalize (s ! (i + (length t - 1))) = canonicalize (t ! (length t - 1))"
    by (rule literalAt_nth)
  then have "isWordChar (s ! (i + (length t - 1))) = isWordChar (t ! (length t - 1))"
    by (rule canonicalize_isWordChar)
  then have "isWordChar (s ! (i + (length t - 1)))"
    using assms(2,4) by (simp add: last_conv_nth)
  moreover have "i + (length t - 1) = i + length t - 1" using pos by linarith
  moreover have "0 < i + length t" "i + length t - 1 < length s" using pos len by linarith+
  ultimately show "isWordBefore s (i + length t)"
    by (simp add: isWordBefore_def)
qed

lemma matchAt_bounded:
  assumes "t \<noteq> []" and "isWordChar (hd t)" and "isWordChar (last t)"
  shows "matchAt t s i \<longleftrightarrow>
           i + length t \<le> length s \<and> ciEqual (take (length t) (drop i s)) t \<and>
           (i = 0 \<or> \<not> isWordChar (s ! (i - 1))) \<and>
           (i + length t = length s \<or> \<not> isWordChar (s ! (i + length t)))"
proof (cases "literalAt t s i")
  case True
  then have len: "i + length t \<le> length s" by (simp add: literalAt_def)
  have w: "isWordAt s i" "isWordBefore s (i + length t)"
    using literalAt_edges [OF True assms] by simp_all
  have b1: "boundaryAt s i \<longleftrightarrow> (i = 0 \<or> \<not> isWordChar (s ! (i - 1)))"
    using w(1) len by (auto simp add: boundaryAt_def isWordBefore_def)
  have b2: "boundaryAt s (i + length t) \<longleftrightarrow>
              (i + length t = length s \<or> \<not> isWordChar (s ! (i + length t)))"
    using w(2) len by (auto simp add: boundaryAt_def isWordAt_def)
  have lit: "i + length t \<le> length s \<and> ciEqual (take (length t) (drop i s)) t"
    using True by (simp add: literalAt_ciEqual)
  show ?thesis
    using True b1 b2 lit by (simp add: matchAt_def)
next
  case False
  then show ?thesis
    by (auto simp add: matchAt_def literalAt_ciEqual)
qed

lemma matches_occursBounded:
  assumes "t \<noteq> []" and "isWordChar (hd t)" and "isWordChar (last t)"
  shows "matches (mkPattern t m cat) s \<longleftrightarrow> occursBounded t s"
proof -
  have "(\<exists>j\<le>length s. matchAt t s j) \<longleftrightarrow> (\<exists>j\<in>set [0..<Suc (length s)]. matchAt t s j)"
    by (simp only: set_upt atLeastLessThan_iff less_Suc_eq_le Bex_def) blast
  then have "matches (mkPattern t m cat) s \<longleftrightarrow> (\<exists>j\<in>set [0..<Suc (length s)]. matchAt t s j)"
    by (simp only: matches_mkPattern)
  then show ?thesis
    by (simp only: matchAt_bounded [OF assms] occursBounded_def)
qed

section \<open>The loops of translate\<close>

definition keyOf :: "LinguisticTerm \<Rightarrow> string" where
  "keyOf t = term_s t @ '':'' @ category t"

fun addNew :: "LinguisticTerm list \<Rightarrow> LinguisticTerm list \<Rightarrow> LinguisticTerm list" where
  "addNew found [] = found"
| "addNew found (x # xs) =
     addNew (if keyOf x \<in> keyOf ` set found then found else found @ [x]) xs"

definition resetPattern :: "CompiledPattern \<Rightarrow> CompiledPattern" where
  "resetPattern p = p\<lparr>regex := (regex p)\<lparr>lastIndex := 0\<rparr>\<rparr>"

lemma keyOf_entryOf: "keyOf (entryOf p) = term_s p @ '':'' @ category p"
  by (simp add: keyOf_def entryOf_def)

lemma RegExp_test_cases:
  obtains e where "RegExp_test re input = (True, re\<lparr>lastIndex := e\<rparr>)"
  | "RegExp_test re input = (False, re\<lparr>lastIndex := 0\<rparr>)"
  by (cases "execFrom (nodes re) input (lastIndex re)") (auto simp add: RegExp_test_def)

lemma testPatterns_eq:
  "foundSet = keyOf ` set found \<Longrightarrow>
   testPatterns ps input found foundSet =
     (map resetPattern ps,
      addNew found (map entryOf (filter (\<lambda>p. matches p input) ps)),
      keyOf ` set (addNew found (map entryOf (filter (\<lambda>p. matches p input) ps))))"
proof (induction ps arbitrary: found foundSet)
  case Nil
  then show ?case by simp
next
  case (Cons p ps)
  show ?case
  proof (cases rule: RegExp_test_cases [of "regex p" input])
    case (1 e)
    then have m: "matches p input" by (simp add: matches_def)
    let ?found = "if keyOf (entryOf p) \<in> keyOf ` set found then found else found @ [entryOf p]"
    let ?set = "if keyOf (entryOf p) \<in> keyOf ` set found then foundSet
                else insert (keyOf (entryOf p)) foundSet"
    have inv: "?set = keyOf ` set ?found"
      using Cons.prems by auto
    have r: "p\<lparr>regex := (regex p)\<lparr>lastIndex := e, lastIndex := 0\<rparr>\<rparr> = resetPattern p"
      by (simp add: resetPattern_def)
    show ?thesis
      using Cons.IH [OF inv] 1 m r Cons.prems
      by (simp add: keyOf_entryOf Let_def split: if_splits)
  next
    case 2
    then have m: "\<not> matches p input" by (simp add: matches_def)
    have r: "p\<lparr>regex := (regex p)\<lparr>lastIndex := 0\<rparr>\<rparr> = resetPattern p"
      by (simp add: resetPattern_def)
    show ?thesis
      using Cons.IH [OF Cons.prems] 2 m r by simp
  qed
qed

lemma addNew_append: "addNew found (xs @ ys) = addNew (addNew found xs) ys"
  by (induction xs arbitrary: found) simp_all

lemma addNew_extends: "\<exists>ys. addNew found xs = found @ ys \<and> set ys \<subseteq> set xs"
proof (induction xs arbitrary: found)
  case Nil
  show ?case by simp
next
  case (Cons x xs)
  let ?found = "if keyOf x \<in> keyOf ` set found then found else found @ [x]"
  from Cons.IH [of ?found] obtain ys where
    ys: "addNew ?found xs = ?found @ ys" "set ys \<subseteq> set xs" by blast
  show ?case
  proof (cases "keyOf x \<in> keyOf ` set found")
    case True
    then show ?thesis using ys by auto
  next
    case False
    then have "addNew found (x # xs) = found @ (x # ys)" using ys by simp
    moreover have "set (x # ys) \<subseteq> set (x # xs)" using ys(2) by auto
    ultimately show ?thesis by blast
  qed
qed

lemma addNew_distinct:
  "distinct (map keyOf found) \<Longrightarrow> distinct (map keyOf (addNew found xs))"
  by (induction xs arbitrary: found) auto

lemma addNew_keys: "keyOf ` set (addNew found xs) = keyOf ` set found \<union> keyOf ` set xs"
  by (induction xs arbitrary: found) auto

lemma addNew_fresh:
  "distinct (map keyOf xs) \<Longrightarrow> keyOf ` set xs \<inter> keyOf ` set found = {} \<Longrightarrow>
   addNew found xs = found @ xs"
proof (induction xs arbitrary: found)
  case Nil
  show ?case by simp
next
  case (Cons x xs)
  have "keyOf x \<notin> keyOf ` set found" using Cons.prems(2) by auto
  moreover have "addNew (found @ [x]) xs = (found @ [x]) @ xs"
    using Cons.prems by (intro Cons.IH) auto
  ultimately show ?case by simp
qed

definition allPatterns :: "LinguisticsEngine \<Rightarrow> CompiledPattern list" where
  "allPatterns e = patterns e @ map snd (dynamicPatterns e)"

definition resetEngine :: "LinguisticsEngine \<Rightarrow> LinguisticsEngine" where
  "resetEngine e =
     e\<lparr>patterns := map resetPattern (patterns e),
       dynamicPatterns := map (\<lambda>(k, p). (k, resetPattern p)) (dynamicPatterns e)\<rparr>"

definition matched :: "CompiledPattern list \<Rightarrow> string \<Rightarrow> LinguisticTerm list" where
  "matched ps input = map entryOf (filter (\<lambda>p. matches p input) ps)"

lemma zip_reset:
  "zip (map fst ds) (map (resetPattern \<circ> snd) ds) = map (\<lambda>(k, p). (k, resetPattern p)) ds"
  by (induction ds) auto

definition foundTerms :: "LinguisticsEngine \<Rightarrow> string \<Rightarrow> LinguisticTerm list" where
  "foundTerms e input =
     addNew (addNew [] (matched (patterns e) input)) (matched (map snd (dynamicPatterns e)) input)"

lemma translate_eq:
  assumes "input \<noteq> []"
  shows "translate e input =
           (\<lparr>original = input, terms = foundTerms e input,
             confidence =
               Math_min 1 (fadd (double_lit (7 / 10))
                 (fmul (of_nat (length (foundTerms e input))) (double_lit (5 / 100)))),
             translatedText = input\<rparr>,
            resetEngine e)"
proof -
  have 1: "testPatterns (patterns e) input [] {} =
             (map resetPattern (patterns e), addNew [] (matched (patterns e) input),
              keyOf ` set (addNew [] (matched (patterns e) input)))"
    unfolding matched_def by (rule testPatterns_eq) simp
  have 2: "testPatterns (map snd (dynamicPatterns e)) input
             (addNew [] (matched (patterns e) input))
             (keyOf ` set (addNew [] (matched (patterns e) input))) =
             (map resetPattern (map snd (dynamicPatterns e)), foundTerms e input,
              keyOf ` set (foundTerms e input))"
    unfolding matched_def foundTerms_def by (rule testPatterns_eq) simp
  show ?thesis
    using assms by (simp add: translate_def 1 2 zip_reset resetEngine_def)
qed

lemma translate_empty:
  "translate e [] = (\<lparr>original = [], terms = [], confidence = 1, translatedText = []\<rparr>, e)"
  by (simp add: translate_def)

lemma foundTerms_all: "foundTerms e input = addNew [] (matched (allPatterns e) input)"
  by (simp add: foundTerms_def allPatterns_def matched_def addNew_append)

section \<open>The constructor and the registration methods\<close>

definition categoryPatterns :: "string \<times> (string \<times> string) list \<Rightarrow> CompiledPattern list" where
  "categoryPatterns ct = map (\<lambda>(t, m). mkPattern t m (fst ct)) (snd ct)"

definition staticPatterns :: "(string \<times> (string \<times> string) list) list \<Rightarrow> CompiledPattern list" where
  "staticPatterns db = concat (map categoryPatterns db)"

definition staticEngine :: LinguisticsEngine where
  "staticEngine =
     \<lparr>patterns = array_sort byTermLength (staticPatterns LINGUISTICS), dynamicPatterns = []\<rparr>"

lemma compileTerms_eq:
  "compileTerms cat ts allTerms = Inr (allTerms @ categoryPatterns (cat, ts))"
  by (induction ts arbitrary: allTerms)
     (auto simp add: categoryPatterns_def compilePattern_eq)

lemma compileCategories_eq:
  "compileCategories db allTerms = Inr (allTerms @ staticPatterns db)"
  by (induction db arbitrary: allTerms)
     (auto simp add: staticPatterns_def compileTerms_eq)

lemma new_LinguisticsEngine_eq: "new_LinguisticsEngine = Inr staticEngine"
  by (simp add: new_LinguisticsEngine_def compileCategories_eq staticEngine_def)

lemma addDynamicTerm_eq:
  "addDynamicTerm t m cat e =
     Inr (e\<lparr>dynamicPatterns := Map_set (toLowerCase t) (mkPattern t m cat) (dynamicPatterns e)\<rparr>)"
  by (simp add: addDynamicTerm_def compilePattern_eq)

lemma loadDynamicTerms_total: "\<exists>e'. loadDynamicTerms ts e = Inr e'"
  by (induction ts arbitrary: e) (simp_all add: addDynamicTerm_eq)

subsection \<open>Sorting\<close>

lemma set_insert_sorted: "set (insert_sorted cmp x ys) = insert x (set ys)"
  by (induction ys) auto

lemma set_array_sort: "set (array_sort cmp xs) = set xs"
  by (induction xs) (simp_all add: array_sort_def set_insert_sorted)

lemma length_insert_sorted: "length (insert_sorted cmp x ys) = Suc (length ys)"
  by (induction ys) auto

lemma length_array_sort: "length (array_sort cmp xs) = length xs"
  by (induction xs) (simp_all add: array_sort_def length_insert_sorted)

definition longerFirst :: "'a LinguisticTerm_scheme \<Rightarrow> 'b LinguisticTerm_scheme \<Rightarrow> bool" where
  "longerFirst a b = (length (term_s b) \<le> length (term_s a))"

lemma sorted_insert_sorted:
  "sorted_wrt longerFirst ys \<Longrightarrow> sorted_wrt longerFirst (insert_sorted byTermLength x ys)"
  by (induction ys) (auto simp add: set_insert_sorted longerFirst_def byTermLength_def)

lemma sorted_array_sort: "sorted_wrt longerFirst (array_sort byTermLength xs)"
  by (induction xs) (simp_all add: array_sort_def sorted_insert_sorted)

lemma distinct_insert_sorted:
  "distinct (map f ys) \<Longrightarrow> f x \<notin> f ` set ys \<Longrightarrow> distinct (map f (insert_sorted cmp x ys))"
  by (induction ys) (auto simp add: set_insert_sorted)

lemma distinct_array_sort: "distinct (map f xs) \<Longrightarrow> distinct (map f (array_sort cmp xs))"
  by (induction xs) (simp_all add: array_sort_def distinct_insert_sorted set_array_sort [unfolded array_sort_def])

subsection \<open>The invariant of the engine\<close>

lemma set_Map_set: "set (Map_set k v m) \<subseteq> insert (k, v) (set m)"
  by (induction m) (auto split: if_splits)

lemma keys_Map_set:
  "map fst (Map_set k v m) = (if k \<in> fst ` set m then map fst m else map fst m @ [k])"
  by (induction m) (force split: if_splits)+

lemma distinct_Map_set: "distinct (map fst m) \<Longrightarrow> distinct (map fst (Map_set k v m))"
  by (simp add: keys_Map_set)

definition wellFormed :: "CompiledPattern \<Rightarrow> bool" where
  "wellFormed p = (p = mkPattern (term_s p) (meaning p) (category p))"

definition engineInv :: "LinguisticsEngine \<Rightarrow> bool" where
  "engineInv e =
     (patterns e = patterns staticEngine \<and>
      distinct (map fst (dynamicPatterns e)) \<and>
      (\<forall>(k, p)\<in>set (dynamicPatterns e). k = toLowerCase (term_s p) \<and> wellFormed p))"

lemma wellFormed_mkPattern: "wellFormed (mkPattern t m cat)"
  by (simp add: wellFormed_def mkPattern_def)

lemma wellFormed_reset: "wellFormed p \<Longrightarrow> resetPattern p = p"
proof -
  assume "wellFormed p"
  then have "lastIndex (regex p) = 0"
    unfolding wellFormed_def mkPattern_def
    by (metis CompiledPattern.select_convs(1) RegExp.select_convs(2))
  then show ?thesis by (simp add: resetPattern_def)
qed

lemma static_wellFormed: "p \<in> set (patterns staticEngine) \<Longrightarrow> wellFormed p"
  by (auto simp add: staticEngine_def set_array_sort staticPatterns_def categoryPatterns_def
      wellFormed_mkPattern)

lemma engineInv_static: "engineInv staticEngine"
  by (simp add: engineInv_def staticEngine_def)

lemma engineInv_add:
  assumes "engineInv e"
  shows "engineInv (e\<lparr>dynamicPatterns :=
           Map_set (toLowerCase t) (mkPattern t m cat) (dynamicPatterns e)\<rparr>)"
proof -
  have "set (Map_set (toLowerCase t) (mkPattern t m cat) (dynamicPatterns e))
          \<subseteq> insert (toLowerCase t, mkPattern t m cat) (set (dynamicPatterns e))"
    by (rule set_Map_set)
  moreover have "term_s (mkPattern t m cat) = t" by (simp add: mkPattern_def)
  ultimately show ?thesis
    using assms wellFormed_mkPattern [of t m cat]
    by (auto simp add: engineInv_def distinct_Map_set)
qed

lemma engineInv_load: "engineInv e \<Longrightarrow> loadDynamicTerms ts e = Inr e' \<Longrightarrow> engineInv e'"
proof (induction ts arbitrary: e)
  case Nil
  then show ?case by simp
next
  case (Cons t ts)
  then show ?case
    using engineInv_add [of e "term_s t" "meaning t" "category t"]
    by (simp add: addDynamicTerm_eq)
qed

lemma engineInv_reset: "engineInv e \<Longrightarrow> resetEngine e = e"
proof -
  assume inv: "engineInv e"
  have 1: "map resetPattern (patterns e) = patterns e"
    using inv by (simp add: engineInv_def map_idI static_wellFormed wellFormed_reset)
  have 2: "map (\<lambda>(k, p). (k, resetPattern p)) (dynamicPatterns e) = dynamicPatterns e"
    using inv by (intro map_idI) (auto simp add: engineInv_def wellFormed_reset)
  show ?thesis by (simp add: resetEngine_def 1 2)
qed

lemma translate_state: "engineInv e \<Longrightarrow> snd (translate e input) = e"
  by (cases "input = []") (simp_all add: translate_empty translate_eq engineInv_reset)

lemma reachable_inv: "reachable e \<Longrightarrow> engineInv e"
proof (induction rule: reachable.induct)
  case (constructed e)
  then show ?case by (simp add: new_LinguisticsEngine_eq engineInv_static)
next
  case (added e t m cat e')
  then show ?case using engineInv_add [of e t m cat] by (simp add: addDynamicTerm_eq)
next
  case (loaded e ts e')
  then show ?case by (simp add: engineInv_load)
next
  case (translated e input r e')
  then show ?case using translate_state [of e input] by simp
qed

lemma reachable_static: "reachable staticEngine"
  by (rule reachable.constructed) (rule new_LinguisticsEngine_eq)

section \<open>Facts of the bundled dictionary\<close>

definition wordEdged :: "string \<Rightarrow> bool" where
  "wordEdged t = (t \<noteq> [] \<and> isWordChar (hd t) \<and> isWordChar (last t))"

definition plainTerm :: "string \<Rightarrow> bool" where
  "plainTerm t =
     (wordEdged t \<and> CHR '':'' \<notin> set t \<and>
      (toLowerCase t = t \<or> t \<in> set [''L'', ''W'', ''big W'', ''big L'']) \<and>
      t \<notin> set [''l'', ''w'', ''big w'', ''big l''])"

lemma GEN_Z_plain: "list_all (\<lambda>(t, m). plainTerm t) GEN_Z_terms"
  unfolding GEN_Z_terms_def by code_simp

lemma GEN_Z_distinct: "distinct (map fst GEN_Z_terms)"
  unfolding GEN_Z_terms_def by code_simp

lemma AAVE_plain: "list_all (\<lambda>(t, m). plainTerm t) AAVE_terms"
  unfolding AAVE_terms_def by code_simp

lemma AAVE_distinct: "distinct (map fst AAVE_terms)"
  unfolding AAVE_terms_def by code_simp

lemma TECH_plain: "list_all (\<lambda>(t, m). plainTerm t) TECH_terms"
  unfolding TECH_terms_def by code_simp

lemma TECH_distinct: "distinct (map fst TECH_terms)"
  unfolding TECH_terms_def by code_simp

lemma STARTUP_plain: "list_all (\<lambda>(t, m). plainTerm t) STARTUP_terms"
  unfolding STARTUP_terms_def by code_simp

lemma STARTUP_distinct: "distinct (map fst STARTUP_terms)"
  unfolding STARTUP_terms_def by code_simp

lemma DESIGN_plain: "list_all (\<lambda>(t, m). plainTerm t) DESIGN_terms"
  unfolding DESIGN_terms_def by code_simp

lemma DESIGN_distinct: "distinct (map fst DESIGN_terms)"
  unfolding DESIGN_terms_def by code_simp

lemma SOUTHERN_plain: "list_all (\<lambda>(t, m). plainTerm t) SOUTHERN_terms"
  unfolding SOUTHERN_terms_def by code_simp

lemma SOUTHERN_distinct: "distinct (map fst SOUTHERN_terms)"
  unfolding SOUTHERN_terms_def by code_simp

lemma UK_plain: "list_all (\<lambda>(t, m). plainTerm t) UK_terms"
  unfolding UK_terms_def by code_simp

lemma UK_distinct: "distinct (map fst UK_terms)"
  unfolding UK_terms_def by code_simp

lemma HIPHOP_plain: "list_all (\<lambda>(t, m). plainTerm t) HIPHOP_terms"
  unfolding HIPHOP_terms_def by code_simp

lemma HIPHOP_distinct: "distinct (map fst HIPHOP_terms)"
  unfolding HIPHOP_terms_def by code_simp

lemma GAMING_plain: "list_all (\<lambda>(t, m). plainTerm t) GAMING_terms"
  unfolding GAMING_terms_def by code_simp

lemma GAMING_distinct: "distinct (map fst GAMING_terms)"
  unfolding GAMING_terms_def by code_simp

lemma HISPANIC_plain: "list_all (\<lambda>(t, m). plainTerm t) HISPANIC_terms"
  unfolding HISPANIC_terms_def by code_simp

lemma HISPANIC_distinct: "distinct (map fst HISPANIC_terms)"
  unfolding HISPANIC_terms_def by code_simp

lemma EMOTIONAL_plain: "list_all (\<lambda>(t, m). plainTerm t) EMOTIONAL_terms"
  unfolding EMOTIONAL_terms_def by code_simp

lemma EMOTIONAL_distinct: "distinct (map fst EMOTIONAL_terms)"
  unfolding EMOTIONAL_terms_def by code_simp

lemmas dictionary_plain =
  GEN_Z_plain
  AAVE_plain
  TECH_plain
  STARTUP_plain
  DESIGN_plain
  SOUTHERN_plain
  UK_plain
  HIPHOP_plain
  GAMING_plain
  HISPANIC_plain
  EMOTIONAL_plain

lemmas dictionary_distinct =
  GEN_Z_distinct
  AAVE_distinct
  TECH_distinct
  STARTUP_distinct
  DESIGN_distinct
  SOUTHERN_distinct
  UK_distinct
  HIPHOP_distinct
  GAMING_distinct
  HISPANIC_distinct
  EMOTIONAL_distinct

lemma LINGUISTICS_entries:
  assumes "(cat, ts) \<in> set LINGUISTICS"
  shows "list_all (\<lambda>(t, m). plainTerm t) ts" and "distinct (map fst ts)"
    and "CHR '':'' \<notin> set cat"
  using assms dictionary_plain dictionary_distinct
  by (auto simp add: LINGUISTICS_def)

lemma LINGUISTICS_categories: "distinct (map fst LINGUISTICS)"
  by (simp add: LINGUISTICS_def)

lemma term_s_mkPattern [simp]: "term_s (mkPattern t m cat) = t"
  and meaning_mkPattern [simp]: "meaning (mkPattern t m cat) = m"
  and category_mkPattern [simp]: "category (mkPattern t m cat) = cat"
  by (simp_all add: mkPattern_def)

lemma staticPatterns_member:
  "p \<in> set (staticPatterns db) \<longleftrightarrow>
     (\<exists>cat ts t m. (cat, ts) \<in> set db \<and> (t, m) \<in> set ts \<and> p = mkPattern t m cat)"
proof
  assume "p \<in> set (staticPatterns db)"
  then obtain ct where ct: "ct \<in> set db" "p \<in> set (categoryPatterns ct)"
    by (auto simp add: staticPatterns_def)
  then obtain t m where tm: "(t, m) \<in> set (snd ct)" "p = mkPattern t m (fst ct)"
    by (auto simp add: categoryPatterns_def)
  from ct(1) have "(fst ct, snd ct) \<in> set db" by simp
  with tm show "\<exists>cat ts t m. (cat, ts) \<in> set db \<and> (t, m) \<in> set ts \<and> p = mkPattern t m cat"
    by blast
next
  assume "\<exists>cat ts t m. (cat, ts) \<in> set db \<and> (t, m) \<in> set ts \<and> p = mkPattern t m cat"
  then obtain cat ts t m where
    m: "(cat, ts) \<in> set db" "(t, m) \<in> set ts" "p = mkPattern t m cat" by blast
  from m(2,3) have "p \<in> set (categoryPatterns (cat, ts))"
    by (force simp add: categoryPatterns_def)
  with m(1) show "p \<in> set (staticPatterns db)"
    by (auto simp add: staticPatterns_def)
qed

lemma static_member:
  "p \<in> set (patterns staticEngine) \<longleftrightarrow>
     (\<exists>cat ts t m. (cat, ts) \<in> set LINGUISTICS \<and> (t, m) \<in> set ts \<and> p = mkPattern t m cat)"
  by (simp add: staticEngine_def set_array_sort staticPatterns_member)

lemma static_plain:
  assumes "p \<in> set (patterns staticEngine)"
  shows "plainTerm (term_s p)" and "CHR '':'' \<notin> set (category p)"
proof -
  from assms obtain cat ts t m where
    m: "(cat, ts) \<in> set LINGUISTICS" "(t, m) \<in> set ts" "p = mkPattern t m cat"
    by (auto simp add: static_member)
  from LINGUISTICS_entries(1) [OF m(1)] m(2) have "plainTerm t"
    by (auto simp add: list_all_iff)
  then show "plainTerm (term_s p)" using m(3) by simp
  show "CHR '':'' \<notin> set (category p)"
    using LINGUISTICS_entries(3) [OF m(1)] m(3) by simp
qed

subsection \<open>Keys\<close>

lemma key_inj:
  assumes "CHR '':'' \<notin> set c1" and "CHR '':'' \<notin> set c2"
    and "t1 @ '':'' @ c1 = t2 @ '':'' @ c2"
  shows "t1 = t2 \<and> c1 = c2"
proof -
  have eq: "rev c1 @ CHR '':'' # rev t1 = rev c2 @ CHR '':'' # rev t2"
    using arg_cong [OF assms(3), of rev] by simp
  have "takeWhile (\<lambda>x. x \<noteq> CHR '':'') (rev c @ CHR '':'' # rev t) = rev c"
    if "CHR '':'' \<notin> set c" for c t
    using that by (subst takeWhile_append2) auto
  then have "rev c1 = rev c2"
    using assms(1,2) eq by metis
  then show ?thesis using eq by simp
qed

lemma key_inj_plain:
  assumes "CHR '':'' \<notin> set t1" and "CHR '':'' \<notin> set c1"
    and "t1 @ '':'' @ c1 = t2 @ '':'' @ c2"
  shows "t1 = t2 \<and> c1 = c2"
  using append_Cons_eq_iff [OF assms(1,2), of t2 c2] assms(3) by simp

lemma static_pairs_distinct_db:
  assumes "distinct (map fst db)" and "\<forall>(cat, ts)\<in>set db. distinct (map fst ts)"
  shows "distinct (map (\<lambda>p. (term_s p, category p)) (staticPatterns db))"
  using assms
proof (induction db)
  case Nil
  show ?case by (simp add: staticPatterns_def)
next
  case (Cons ct db)
  obtain cat ts where ct: "ct = (cat, ts)" by (cases ct)
  have split: "staticPatterns (ct # db) = categoryPatterns ct @ staticPatterns db"
    by (simp add: staticPatterns_def)
  have "map (\<lambda>p. (term_s p, category p)) (categoryPatterns ct) = map (\<lambda>t. (t, cat)) (map fst ts)"
    by (simp add: categoryPatterns_def ct case_prod_unfold)
  moreover have "distinct (map (\<lambda>t. (t, cat)) (map fst ts))"
    using Cons.prems(2) ct by (simp add: distinct_map inj_on_def)
  ultimately have 1: "distinct (map (\<lambda>p. (term_s p, category p)) (categoryPatterns ct))"
    by simp
  have 2: "distinct (map (\<lambda>p. (term_s p, category p)) (staticPatterns db))"
    using Cons.prems by (intro Cons.IH) auto
  have "category p \<noteq> category q"
    if "p \<in> set (categoryPatterns ct)" and "q \<in> set (staticPatterns db)" for p q
  proof -
    from that(1) have "category p = cat" by (auto simp add: categoryPatterns_def ct)
    moreover from that(2) have "category q \<in> fst ` set db"
      by (force simp add: staticPatterns_member)
    ultimately show ?thesis using Cons.prems(1) ct by (force simp add: image_iff)
  qed
  then have 3: "(\<lambda>p. (term_s p, category p)) ` set (categoryPatterns ct) \<inter>
                (\<lambda>p. (term_s p, category p)) ` set (staticPatterns db) = {}"
    by auto
  show ?case using 1 2 3 by (simp add: split)
qed

lemma static_pairs_distinct:
  "distinct (map (\<lambda>p. (term_s p, category p)) (patterns staticEngine))"
proof -
  have "distinct (map (\<lambda>p. (term_s p, category p)) (staticPatterns LINGUISTICS))"
    using LINGUISTICS_categories LINGUISTICS_entries(2)
    by (intro static_pairs_distinct_db) auto
  then show ?thesis
    by (simp add: staticEngine_def distinct_array_sort)
qed

lemma static_keys_distinct: "distinct (map keyOf (map entryOf (patterns staticEngine)))"
proof -
  have "inj_on (\<lambda>p. keyOf (entryOf p)) (set (patterns staticEngine))"
  proof (rule inj_onI)
    fix p q
    assume p: "p \<in> set (patterns staticEngine)" and q: "q \<in> set (patterns staticEngine)"
      and eq: "keyOf (entryOf p) = keyOf (entryOf q)"
    have "term_s p = term_s q \<and> category p = category q"
      using static_plain(2) [OF p] static_plain(2) [OF q] eq
      by (intro key_inj) (simp_all add: keyOf_entryOf)
    moreover have "inj_on (\<lambda>p. (term_s p, category p)) (set (patterns staticEngine))"
      using static_pairs_distinct by (simp add: distinct_map)
    ultimately show "p = q" using p q by (auto dest: inj_onD)
  qed
  moreover have "distinct (patterns staticEngine)"
    using static_pairs_distinct by (simp add: distinct_map)
  ultimately show ?thesis by (simp add: distinct_map comp_def)
qed

lemma matched_static_found:
  "addNew [] (matched (patterns staticEngine) input) = matched (patterns staticEngine) input"
proof -
  have "distinct (map (keyOf \<circ> entryOf) (patterns staticEngine))"
    using static_keys_distinct by simp
  then have "distinct (map (keyOf \<circ> entryOf)
               (filter (\<lambda>p. matches p input) (patterns staticEngine)))"
    by (rule distinct_map_filter)
  then have "distinct (map keyOf (matched (patterns staticEngine) input))"
    by (simp add: matched_def)
  then show ?thesis
    using addNew_fresh [of "matched (patterns staticEngine) input" "[]"] by simp
qed

lemma foundTerms_split:
  assumes "engineInv e"
  shows "\<exists>ys. foundTerms e input = matched (patterns e) input @ ys \<and>
               set ys \<subseteq> set (matched (map snd (dynamicPatterns e)) input)"
proof -
  have "patterns e = patterns staticEngine" using assms by (simp add: engineInv_def)
  then have "foundTerms e input =
               addNew (matched (patterns e) input) (matched (map snd (dynamicPatterns e)) input)"
    by (simp add: foundTerms_def matched_static_found)
  then show ?thesis
    using addNew_extends [of "matched (patterns e) input"] by simp
qed

section \<open>Examples\<close>

definition capPattern :: CompiledPattern where
  "capPattern = mkPattern ''cap'' ''lie'' ''GEN_Z''"

lemma capPattern_static: "capPattern \<in> set (patterns staticEngine)"
proof -
  have "(''GEN_Z'', GEN_Z_terms) \<in> set LINGUISTICS" by (simp add: LINGUISTICS_def)
  moreover have "(''cap'', ''lie'') \<in> set GEN_Z_terms" by (simp add: GEN_Z_terms_def)
  ultimately show ?thesis unfolding capPattern_def static_member by blast
qed

lemma capPattern_matches: "matches capPattern ''cap cap cap''"
  unfolding capPattern_def by code_simp

lemma wellFormed_lastIndex: "wellFormed p \<Longrightarrow> lastIndex (regex p) = 0"
  unfolding wellFormed_def mkPattern_def
  by (metis CompiledPattern.select_convs(1) RegExp.select_convs(2))

lemma matched_member:
  "p \<in> set ps \<Longrightarrow> matches p input \<Longrightarrow> entryOf p \<in> set (matched ps input)"
  by (simp add: matched_def)

lemma terms_nonempty: "input \<noteq> [] \<Longrightarrow> terms (fst (translate e input)) = foundTerms e input"
  by (simp add: translate_eq)

lemma foundTerms_distinct: "distinct (map keyOf (foundTerms e input))"
  by (simp add: foundTerms_def addNew_distinct)

lemma static_found:
  assumes "engineInv e" and "p \<in> set (patterns e)" and "matches p input"
  shows "entryOf p \<in> set (foundTerms e input)"
proof -
  obtain ys where "foundTerms e input = matched (patterns e) input @ ys"
    using foundTerms_split [OF assms(1)] by blast
  then show ?thesis using matched_member [OF assms(2,3)] by simp
qed

lemma distinct_map_comp: "distinct (map (g \<circ> f) xs) \<Longrightarrow> distinct (map f xs)"
  by (induction xs) auto

lemma distinct_keys_pairs:
  assumes "distinct (map keyOf ts)"
  shows "distinct (map (\<lambda>t. (term_s t, category t)) ts)"
proof -
  have "map keyOf ts = map ((\<lambda>(t, c). t @ '':'' @ c) \<circ> (\<lambda>t. (term_s t, category t))) ts"
    by (simp add: keyOf_def)
  with assms show ?thesis by (simp only: distinct_map_comp)
qed

lemma distinct_filter_singleton:
  assumes "distinct (map f xs)" and "x \<in> set xs"
  shows "filter (\<lambda>y. f y = f x) xs = [x]"
  using assms
proof (induction xs)
  case Nil
  then show ?case by simp
next
  case (Cons a xs)
  show ?case
  proof (cases "a = x")
    case True
    then have "filter (\<lambda>y. f y = f x) xs = []"
      using Cons.prems(1) by (force simp add: filter_empty_conv image_iff)
    then show ?thesis using True by simp
  next
    case False
    then have "x \<in> set xs" using Cons.prems(2) by simp
    moreover from this have "f a \<noteq> f x" using Cons.prems(1) by auto
    ultimately show ?thesis using Cons.IH Cons.prems(1) by simp
  qed
qed

text \<open>
  C4: for every input \<open>s\<close> (and every state of the engine) the result of \<open>translate\<close>
  has \<open>translatedText = s\<close> and \<open>original = s\<close>; this includes the empty input, where
  \<open>original\<close> is the empty string literal.
\<close>

theorem C4_pass_through:
  "translatedText (fst (translate e s)) = s \<and> original (fst (translate e s)) = s"
  by (cases "s = []") (simp_all add: translate_empty translate_eq)

theorem C4_pass_through_witness:
  "translatedText (fst (translate staticEngine ''no cap fr fr'')) = ''no cap fr fr'' \<and>
   original (fst (translate staticEngine ''no cap fr fr'')) = ''no cap fr fr''"
  by (rule C4_pass_through)

text \<open>
  C7: \<open>translate("")\<close> returns \<open>{original: "", terms: [], confidence: 1,
  translatedText: ""}\<close> whatever the state of the engine is, and leaves every pattern
  as it was: no matcher has been run.
\<close>

theorem C7_empty_input:
  "translate e [] = (\<lparr>original = [], terms = [], confidence = 1, translatedText = []\<rparr>, e)"
  by (simp add: translate_def)

theorem C7_empty_input_witness:
  "translate staticEngine [] =
     (\<lparr>original = [], terms = [], confidence = 1, translatedText = []\<rparr>, staticEngine)"
  by (rule C7_empty_input)

text \<open>
  C3: the terms of a result never hold two entries with the same term and category, since
  an entry is recorded only when its key \<open>term + ":" + category\<close> is new; and
  \<open>translate("cap cap cap")\<close> on the constructed engine has exactly one entry for
  \<open>cap\<close> in \<open>GEN_Z\<close>.
\<close>

theorem C3_no_duplicate_entries:
  "distinct (map keyOf (terms (fst (translate e input)))) \<and>
   distinct (map (\<lambda>t. (term_s t, category t)) (terms (fst (translate e input)))) \<and>
   filter (\<lambda>t. term_s t = ''cap'' \<and> category t = ''GEN_Z'')
     (terms (fst (translate staticEngine ''cap cap cap''))) =
     [\<lparr>term_s = ''cap'', meaning = ''lie'', category = ''GEN_Z''\<rparr>]"
proof (intro conjI)
  show keys: "distinct (map keyOf (terms (fst (translate e input))))" for e input
    by (cases "input = []") (simp_all add: translate_empty translate_eq foundTerms_distinct)
  show pairs: "distinct (map (\<lambda>t. (term_s t, category t)) (terms (fst (translate e input))))"
    for e input
    using keys [of e input] by (rule distinct_keys_pairs)
  let ?ts = "terms (fst (translate staticEngine ''cap cap cap''))"
  have "entryOf capPattern \<in> set ?ts"
    using static_found [OF engineInv_static capPattern_static capPattern_matches]
    by (simp add: terms_nonempty)
  from distinct_filter_singleton [OF pairs this]
  show "filter (\<lambda>t. term_s t = ''cap'' \<and> category t = ''GEN_Z'') ?ts =
          [\<lparr>term_s = ''cap'', meaning = ''lie'', category = ''GEN_Z''\<rparr>]"
    by (simp add: entryOf_def capPattern_def)
qed

text \<open>
  C9: on an engine that the module can reach, \<open>translate\<close> leaves the engine as it found
  it; every \<open>lastIndex\<close> is 0 again, and a second call with the same input returns the
  same result.
\<close>

theorem C9_translate_idempotent:
  assumes "reachable e"
  shows "snd (translate e s) = e \<and>
         list_all (\<lambda>p. lastIndex (regex p) = 0) (allPatterns (snd (translate e s))) \<and>
         fst (translate (snd (translate e s)) s) = fst (translate e s)"
proof -
  from assms have inv: "engineInv e" by (rule reachable_inv)
  then have st: "snd (translate e s) = e" by (rule translate_state)
  have "wellFormed p" if "p \<in> set (allPatterns e)" for p
    using that inv by (auto simp add: allPatterns_def engineInv_def static_wellFormed)
  then have "lastIndex (regex p) = 0" if "p \<in> set (allPatterns e)" for p
    using that by (simp add: wellFormed_lastIndex)
  then have "list_all (\<lambda>p. lastIndex (regex p) = 0) (allPatterns e)"
    by (simp add: list_all_iff)
  with st show ?thesis by simp
qed

theorem C9_translate_idempotent_witness:
  "reachable staticEngine \<and>
   snd (translate staticEngine ''no cap fr fr'') = staticEngine \<and>
   list_all (\<lambda>p. lastIndex (regex p) = 0)
     (allPatterns (snd (translate staticEngine ''no cap fr fr''))) \<and>
   fst (translate (snd (translate staticEngine ''no cap fr fr'')) ''no cap fr fr'') =
     fst (translate staticEngine ''no cap fr fr'')"
  using C9_translate_idempotent [OF reachable_static, of "''no cap fr fr''"] reachable_static
  by (intro conjI) (elim conjE, assumption)+

section \<open>The matcher on the patterns of a reachable engine\<close>

lemma matches_wellFormed:
  "wellFormed p \<Longrightarrow> matches p input \<longleftrightarrow> (\<exists>j\<le>length input. matchAt (term_s p) input j)"
  using matches_mkPattern [of "term_s p" "meaning p" "category p" input]
  by (simp add: wellFormed_def)

lemma matches_wordEdged:
  assumes "wellFormed p" and "wordEdged (term_s p)"
  shows "matches p input \<longleftrightarrow> occursBounded (term_s p) input"
proof -
  from assms(2) have "term_s p \<noteq> []" "isWordChar (hd (term_s p))" "isWordChar (last (term_s p))"
    by (simp_all add: wordEdged_def)
  from matches_occursBounded [OF this, of "meaning p" "category p" input] assms(1)
  show ?thesis by (simp add: wellFormed_def)
qed

lemma reachable_wellFormed:
  assumes "reachable e" and "p \<in> set (allPatterns e)"
  shows "wellFormed p"
  using reachable_inv [OF assms(1)] assms(2)
  by (auto simp add: allPatterns_def engineInv_def static_wellFormed)

lemma reachable_static_patterns: "reachable e \<Longrightarrow> patterns e = patterns staticEngine"
  by (drule reachable_inv) (simp add: engineInv_def)

lemma found_origin:
  assumes "x \<in> set (foundTerms e input)"
  shows "\<exists>q\<in>set (allPatterns e). x = entryOf q \<and> matches q input"
proof -
  obtain ys where "foundTerms e input = [] @ ys" "set ys \<subseteq> set (matched (allPatterns e) input)"
    using addNew_extends [of "[]" "matched (allPatterns e) input"] by (auto simp add: foundTerms_all)
  with assms have "x \<in> set (matched (allPatterns e) input)" by auto
  then show ?thesis by (auto simp add: matched_def)
qed

lemma matches_empty_input:
  assumes "wellFormed p" and "term_s p \<noteq> []"
  shows "\<not> matches p []"
  using assms by (simp add: matches_wellFormed matchAt_def literalAt_def)

lemma sorted_wrt_matched:
  "sorted_wrt longerFirst ps \<Longrightarrow> sorted_wrt longerFirst (matched ps input)"
proof -
  assume "sorted_wrt longerFirst ps"
  then have "sorted_wrt longerFirst (filter (\<lambda>p. matches p input) ps)"
    by (rule sorted_wrt_filter)
  then show ?thesis
    by (simp add: matched_def sorted_wrt_map longerFirst_def [abs_def] entryOf_def)
qed

definition rizzEngine :: LinguisticsEngine where
  "rizzEngine = staticEngine\<lparr>dynamicPatterns := [(''rizz'', mkPattern ''rizz'' ''charisma'' ''GEN_Z'')]\<rparr>"

lemma rizzEngine_added: "addDynamicTerm ''rizz'' ''charisma'' ''GEN_Z'' staticEngine = Inr rizzEngine"
  by (simp add: addDynamicTerm_eq rizzEngine_def staticEngine_def toLowerCase_def toLowerCase_char_def)

lemma rizzEngine_reachable: "reachable rizzEngine"
  using reachable_static rizzEngine_added by (rule reachable.added)

text \<open>
  C1 (as amended): on every engine that the module can reach, the matcher of every static
  pattern, and of every dynamic pattern whose term is not empty and begins and ends with a
  word character, succeeds exactly when the term occurs in the text, compared without
  regard to case, between non-word characters or the ends of the text; so a term inside a
  longer word does not match.  Every entry that \<open>translate\<close> reports is the stored entry of
  a pattern of the engine whose matcher succeeded: its term has the casing of the
  dictionary or of the registration.
\<close>

theorem C1_whole_word_match:
  assumes "reachable e"
    and "p \<in> set (patterns e) \<or> (p \<in> snd ` set (dynamicPatterns e) \<and> wordEdged (term_s p))"
  shows "(fst (RegExp_test (regex p) input) \<longleftrightarrow> occursBounded (term_s p) input) \<and>
         list_all (\<lambda>x. \<exists>q\<in>set (allPatterns e). x = entryOf q \<and> fst (RegExp_test (regex q) input))
           (terms (fst (translate e input)))"
proof
  from assms(2) have mem: "p \<in> set (allPatterns e)" by (auto simp add: allPatterns_def)
  have edged: "wordEdged (term_s p)"
    using assms(2)
  proof
    assume "p \<in> set (patterns e)"
    then have "p \<in> set (patterns staticEngine)"
      using reachable_static_patterns [OF assms(1)] by simp
    then show ?thesis using static_plain(1) by (simp add: plainTerm_def)
  qed simp
  from matches_wordEdged [OF reachable_wellFormed [OF assms(1) mem] edged]
  show "fst (RegExp_test (regex p) input) \<longleftrightarrow> occursBounded (term_s p) input"
    by (simp add: matches_def)
  show "list_all (\<lambda>x. \<exists>q\<in>set (allPatterns e). x = entryOf q \<and> fst (RegExp_test (regex q) input))
          (terms (fst (translate e input)))"
  proof (cases "input = []")
    case True
    then show ?thesis by (simp add: translate_empty)
  next
    case False
    then show ?thesis
      using found_origin [of _ e input]
      by (simp add: terms_nonempty list_all_iff matches_def)
  qed
qed

definition rizzPattern :: CompiledPattern where
  "rizzPattern = mkPattern ''rizz'' ''charisma'' ''GEN_Z''"

definition cppPattern :: CompiledPattern where
  "cppPattern = mkPattern ''c++'' ''a programming language'' ''TECH''"

definition cppEngine :: LinguisticsEngine where
  "cppEngine = staticEngine\<lparr>dynamicPatterns := [(''c++'', cppPattern)]\<rparr>"

theorem C1_whole_word_match_witness:
  "reachable rizzEngine \<and> capPattern \<in> set (patterns rizzEngine) \<and>
   rizzPattern \<in> snd ` set (dynamicPatterns rizzEngine) \<and> wordEdged (term_s rizzPattern) \<and>
   fst (RegExp_test (regex capPattern) ''that's cap'') \<and>
   \<not> fst (RegExp_test (regex capPattern) ''captioning this'') \<and>
   fst (RegExp_test (regex rizzPattern) ''he has RIZZ'')"
proof -
  have cap: "capPattern \<in> set (patterns rizzEngine)"
    using capPattern_static by (simp add: rizzEngine_def)
  have rizz: "rizzPattern \<in> snd ` set (dynamicPatterns rizzEngine)"
    by (simp add: rizzEngine_def rizzPattern_def)
  have edged: "wordEdged (term_s rizzPattern)"
    by (simp add: rizzPattern_def wordEdged_def isWordChar_def)
  have o1: "occursBounded (term_s capPattern) ''that's cap''"
    unfolding capPattern_def by code_simp
  have o2: "\<not> occursBounded (term_s capPattern) ''captioning this''"
    unfolding capPattern_def by code_simp
  have o3: "occursBounded (term_s rizzPattern) ''he has RIZZ''"
    unfolding rizzPattern_def by code_simp
  have c: "capPattern \<in> set (patterns rizzEngine) \<or>
           (capPattern \<in> snd ` set (dynamicPatterns rizzEngine) \<and> wordEdged (term_s capPattern))"
    using cap by simp
  have r: "rizzPattern \<in> set (patterns rizzEngine) \<or>
           (rizzPattern \<in> snd ` set (dynamicPatterns rizzEngine) \<and> wordEdged (term_s rizzPattern))"
    using rizz edged by simp
  show ?thesis
    using C1_whole_word_match [OF rizzEngine_reachable c, of "''that's cap''"]
      C1_whole_word_match [OF rizzEngine_reachable c, of "''captioning this''"]
      C1_whole_word_match [OF rizzEngine_reachable r, of "''he has RIZZ''"]
      rizzEngine_reachable cap rizz edged o1 o2 o3
    by blast
qed

theorem C1_counterexample:
  "addDynamicTerm ''c++'' ''a programming language'' ''TECH'' staticEngine = Inr cppEngine \<and>
   cppPattern \<in> snd ` set (dynamicPatterns cppEngine) \<and>
   occursBounded (term_s cppPattern) ''I like c++'' \<and>
   \<not> fst (RegExp_test (regex cppPattern) ''I like c++'')"
proof (intro conjI)
  show "addDynamicTerm ''c++'' ''a programming language'' ''TECH'' staticEngine = Inr cppEngine"
    by (simp add: addDynamicTerm_eq cppEngine_def cppPattern_def staticEngine_def
        toLowerCase_def toLowerCase_char_def)
  show "cppPattern \<in> snd ` set (dynamicPatterns cppEngine)"
    by (simp add: cppEngine_def)
  show "occursBounded (term_s cppPattern) ''I like c++''"
    unfolding cppPattern_def by code_simp
  show "\<not> fst (RegExp_test (regex cppPattern) ''I like c++'')"
    unfolding cppPattern_def by code_simp
qed

text \<open>
  C2: on every engine that the module can reach the static patterns are sorted by
  descending length of the term; the terms of a result are the entries of the matching
  static patterns, in that order (so a longer term is never after a shorter one), followed
  by entries of matching dynamic patterns only.
\<close>

theorem C2_static_order:
  assumes "reachable e"
  shows "sorted_wrt longerFirst (patterns e) \<and>
         sorted_wrt longerFirst (matched (patterns e) input) \<and>
         (\<exists>dyn. terms (fst (translate e input)) = matched (patterns e) input @ dyn \<and>
                set dyn \<subseteq> set (matched (map snd (dynamicPatterns e)) input))"
proof (intro conjI)
  from assms have inv: "engineInv e" by (rule reachable_inv)
  show sorted: "sorted_wrt longerFirst (patterns e)"
    using inv by (simp add: engineInv_def staticEngine_def sorted_array_sort)
  then show "sorted_wrt longerFirst (matched (patterns e) input)"
    by (rule sorted_wrt_matched)
  show "\<exists>dyn. terms (fst (translate e input)) = matched (patterns e) input @ dyn \<and>
              set dyn \<subseteq> set (matched (map snd (dynamicPatterns e)) input)"
  proof (cases "input = []")
    case True
    have "\<not> matches p []" if "p \<in> set (patterns e)" for p
    proof -
      from that inv have p: "p \<in> set (patterns staticEngine)" by (simp add: engineInv_def)
      from static_plain(1) [OF p] have "term_s p \<noteq> []"
        by (simp add: plainTerm_def wordEdged_def)
      with static_wellFormed [OF p] show ?thesis by (rule matches_empty_input)
    qed
    then have "matched (patterns e) [] = []"
      by (simp add: matched_def filter_empty_conv)
    then show ?thesis using True by (simp add: translate_empty)
  next
    case False
    then show ?thesis
      using foundTerms_split [OF inv, of input] by (simp add: terms_nonempty)
  qed
qed

theorem C2_static_order_witness:
  "reachable rizzEngine \<and> sorted_wrt longerFirst (patterns rizzEngine) \<and>
   sorted_wrt longerFirst (matched (patterns rizzEngine) ''no cap fr fr rizz'') \<and>
   (\<exists>dyn. terms (fst (translate rizzEngine ''no cap fr fr rizz'')) =
            matched (patterns rizzEngine) ''no cap fr fr rizz'' @ dyn \<and>
          set dyn \<subseteq> set (matched (map snd (dynamicPatterns rizzEngine)) ''no cap fr fr rizz''))"
  using C2_static_order [OF rizzEngine_reachable, of "''no cap fr fr rizz''"] rizzEngine_reachable
  by (intro conjI) (elim conjE, assumption)+

text \<open>
  C6: on every engine that the module can reach, when the text contains a term of the
  dictionary, the result has exactly one entry for that term in each category that lists
  it, and that entry carries the meaning of that category; entries of one term in two
  categories are not merged.
\<close>

theorem C6_one_entry_per_category:
  assumes "reachable e" and "(cat, ts) \<in> set LINGUISTICS" and "(t, m) \<in> set ts"
    and "occursBounded t input"
  shows "filter (\<lambda>x. term_s x = t \<and> category x = cat) (terms (fst (translate e input))) =
           [\<lparr>term_s = t, meaning = m, category = cat\<rparr>]"
proof -
  from assms(1) have inv: "engineInv e" by (rule reachable_inv)
  let ?p = "mkPattern t m cat"
  have p: "?p \<in> set (patterns staticEngine)"
    using assms(2,3) unfolding static_member by blast
  then have pe: "?p \<in> set (patterns e)" using inv by (simp add: engineInv_def)
  from static_plain(1) [OF p] have edged: "wordEdged t" by (simp add: plainTerm_def)
  then have m: "matches ?p input"
    using matches_wordEdged [OF wellFormed_mkPattern, of t m cat input] assms(4) by simp
  have "input \<noteq> []"
    using m matches_empty_input [OF wellFormed_mkPattern, of t m cat] edged
    by (auto simp add: wordEdged_def)
  then have ts: "terms (fst (translate e input)) = foundTerms e input"
    by (rule terms_nonempty)
  have "entryOf ?p \<in> set (foundTerms e input)"
    using inv pe m by (rule static_found)
  moreover have "distinct (map (\<lambda>x. (term_s x, category x)) (foundTerms e input))"
    using foundTerms_distinct by (rule distinct_keys_pairs)
  ultimately have "filter (\<lambda>y. (term_s y, category y) = (term_s (entryOf ?p), category (entryOf ?p)))
                     (foundTerms e input) = [entryOf ?p]"
    by (intro distinct_filter_singleton)
  then show ?thesis
    by (simp add: ts entryOf_def)
qed

theorem C6_one_entry_per_category_witness:
  "reachable staticEngine \<and>
   (''AAVE'', AAVE_terms) \<in> set LINGUISTICS \<and> (''pressed'', ''upset'') \<in> set AAVE_terms \<and>
   (''EMOTIONAL'', EMOTIONAL_terms) \<in> set LINGUISTICS \<and>
   (''pressed'', ''stressed'') \<in> set EMOTIONAL_terms \<and>
   occursBounded ''pressed'' ''why so pressed'' \<and>
   filter (\<lambda>x. term_s x = ''pressed'' \<and> category x = ''AAVE'')
     (terms (fst (translate staticEngine ''why so pressed''))) =
     [\<lparr>term_s = ''pressed'', meaning = ''upset'', category = ''AAVE''\<rparr>] \<and>
   filter (\<lambda>x. term_s x = ''pressed'' \<and> category x = ''EMOTIONAL'')
     (terms (fst (translate staticEngine ''why so pressed''))) =
     [\<lparr>term_s = ''pressed'', meaning = ''stressed'', category = ''EMOTIONAL''\<rparr>]"
proof -
  have a: "(''AAVE'', AAVE_terms) \<in> set LINGUISTICS"
    and e: "(''EMOTIONAL'', EMOTIONAL_terms) \<in> set LINGUISTICS"
    by (simp_all add: LINGUISTICS_def)
  have pa: "(''pressed'', ''upset'') \<in> set AAVE_terms" by (simp add: AAVE_terms_def)
  have pe: "(''pressed'', ''stressed'') \<in> set EMOTIONAL_terms" by (simp add: EMOTIONAL_terms_def)
  have o: "occursBounded ''pressed'' ''why so pressed''" by code_simp
  show ?thesis
    using C6_one_entry_per_category [OF reachable_static a pa o]
      C6_one_entry_per_category [OF reachable_static e pe o]
      reachable_static a e pa pe o
    by (intro conjI)
qed

section \<open>Dynamic terms beside static ones\<close>

lemma of_char_toLowerCase_char: "(of_char (toLowerCase_char c) :: nat) = lowerCode (of_char c)"
  by (simp add: toLowerCase_char_code lowerCode_lt)

lemma toLowerCase_char_colon: "toLowerCase_char c = CHR '':'' \<longleftrightarrow> c = CHR '':''"
proof -
  have "toLowerCase_char c = CHR '':'' \<longleftrightarrow>
          (of_char (toLowerCase_char c) :: nat) = of_char CHR '':''"
    by (simp only: of_char_eq_iff)
  also have "\<dots> \<longleftrightarrow> lowerCode (of_char c) = 58"
    by (simp add: of_char_toLowerCase_char)
  also have "\<dots> \<longleftrightarrow> (of_char c :: nat) = 58"
    by (auto simp add: lowerCode_def)
  also have "\<dots> \<longleftrightarrow> (of_char c :: nat) = of_char CHR '':''"
    by simp
  also have "\<dots> \<longleftrightarrow> c = CHR '':''"
    by (simp only: of_char_eq_iff)
  finally show ?thesis .
qed

lemma toLowerCase_colon: "CHR '':'' \<in> set (toLowerCase t) \<longleftrightarrow> CHR '':'' \<in> set t"
proof -
  have "CHR '':'' \<in> set (toLowerCase t) \<longleftrightarrow> (\<exists>c\<in>set t. toLowerCase_char c = CHR '':'')"
    by (force simp add: toLowerCase_def image_iff)
  then show ?thesis by (simp add: toLowerCase_char_colon)
qed

lemma matchAt_ci:
  assumes "toLowerCase t = toLowerCase t'"
  shows "matchAt t input j = matchAt t' input j"
proof -
  have "length t = length t'"
    using arg_cong [OF assms, of length] by (simp add: toLowerCase_def)
  moreover have "map canonicalize t = map canonicalize t'"
    using assms by (simp add: map_canonicalize_eq_iff ciEqual_def)
  ultimately show ?thesis by (simp add: matchAt_def literalAt_def)
qed

lemma matches_ci:
  assumes "wellFormed p" and "wellFormed q" and "toLowerCase (term_s p) = toLowerCase (term_s q)"
  shows "matches p input = matches q input"
  using assms by (simp add: matches_wellFormed matchAt_ci [OF assms(3)])

lemma plainTerm_case_unique:
  assumes "plainTerm t" and "plainTerm t'" and "toLowerCase t = toLowerCase t'"
  shows "t = t'"
proof -
  have low: "toLowerCase ''L'' = ''l''" "toLowerCase ''W'' = ''w''"
    "toLowerCase ''big W'' = ''big w''" "toLowerCase ''big L'' = ''big l''"
    by code_simp+
  from assms(1) have 1: "toLowerCase t = t \<or> t \<in> set [''L'', ''W'', ''big W'', ''big L'']"
    and 2: "t \<notin> set [''l'', ''w'', ''big w'', ''big l'']" by (simp_all add: plainTerm_def)
  from assms(2) have 3: "toLowerCase t' = t' \<or> t' \<in> set [''L'', ''W'', ''big W'', ''big L'']"
    and 4: "t' \<notin> set [''l'', ''w'', ''big w'', ''big l'']" by (simp_all add: plainTerm_def)
  show ?thesis
  proof (cases "toLowerCase t = t")
    case True
    show ?thesis
    proof (cases "toLowerCase t' = t'")
      case True
      with \<open>toLowerCase t = t\<close> assms(3) show ?thesis by simp
    next
      case False
      with 3 have "toLowerCase t' \<in> set [''l'', ''w'', ''big w'', ''big l'']"
        using low by auto
      with True assms(3) 2 show ?thesis by simp
    qed
  next
    case False
    with 1 have t: "t \<in> set [''L'', ''W'', ''big W'', ''big L'']" by simp
    then have lt: "toLowerCase t \<in> set [''l'', ''w'', ''big w'', ''big l'']"
      using low by auto
    show ?thesis
    proof (cases "toLowerCase t' = t'")
      case True
      with lt assms(3) 4 show ?thesis by simp
    next
      case False
      with 3 have t': "t' \<in> set [''L'', ''W'', ''big W'', ''big L'']" by simp
      from t t' assms(3) low show ?thesis by auto
    qed
  qed
qed

lemma matched_origin:
  "x \<in> set (matched ps input) \<Longrightarrow> \<exists>p\<in>set ps. x = entryOf p \<and> matches p input"
  by (auto simp add: matched_def)

lemma store_value_unique:
  assumes "distinct (map fst m)" and "(k, a) \<in> set m" and "(k, b) \<in> set m"
  shows "a = b"
  using assms by (rule eq_key_imp_eq_value)

definition capsPattern :: CompiledPattern where
  "capsPattern = mkPattern ''Cap'' ''falsehood'' ''GEN_Z''"

definition capsEngine :: LinguisticsEngine where
  "capsEngine = staticEngine\<lparr>dynamicPatterns := [(''cap'', capsPattern)]\<rparr>"

lemma capsEngine_added: "addDynamicTerm ''Cap'' ''falsehood'' ''GEN_Z'' staticEngine = Inr capsEngine"
proof -
  have "toLowerCase ''Cap'' = ''cap''" by code_simp
  then show ?thesis
    by (simp add: addDynamicTerm_eq capsEngine_def capsPattern_def staticEngine_def)
qed

lemma capsEngine_reachable: "reachable capsEngine"
  using reachable_static capsEngine_added by (rule reachable.added)

text \<open>
  C10 (as amended): on every engine that the module can reach, let a dynamic entry have the
  lower-cased term of a static entry, a category without \<open>:\<close>, and either another casing
  than the static entry or a category under which the dictionary does not list that term.
  When the text contains the term, the result holds the static entry and, after it, the
  dynamic entry.
\<close>

theorem C10_dynamic_beside_static:
  assumes "reachable e" and "s \<in> set (patterns e)" and "d \<in> snd ` set (dynamicPatterns e)"
    and "toLowerCase (term_s d) = toLowerCase (term_s s)"
    and "term_s d \<noteq> term_s s \<or>
         category d \<notin> category ` {q \<in> set (patterns e). term_s q = term_s s}"
    and "CHR '':'' \<notin> set (category d)"
    and "occursBounded (term_s s) input"
  shows "\<exists>xs ys zs. terms (fst (translate e input)) = xs @ entryOf s # ys @ entryOf d # zs"
proof -
  from assms(1) have inv: "engineInv e" by (rule reachable_inv)
  then have pats: "patterns e = patterns staticEngine"
    and keys: "distinct (map fst (dynamicPatterns e))"
    and store: "\<And>k p. (k, p) \<in> set (dynamicPatterns e) \<Longrightarrow> k = toLowerCase (term_s p)"
    by (auto simp add: engineInv_def)
  from assms(2) pats have sp: "s \<in> set (patterns staticEngine)" by simp
  have ws: "wellFormed s" using sp by (rule static_wellFormed)
  from assms(3) have dm: "d \<in> set (map snd (dynamicPatterns e))" by simp
  then have wd: "wellFormed d"
    using reachable_wellFormed [OF assms(1), of d] by (simp add: allPatterns_def)
  have plain_s: "plainTerm (term_s s)" using sp by (rule static_plain(1))
  then have ms: "matches s input"
    using matches_wordEdged [OF ws, of input] assms(7) by (simp add: plainTerm_def)
  then have md: "matches d input"
    using matches_ci [OF wd ws assms(4), of input] by simp
  have "input \<noteq> []"
    using ms matches_empty_input [OF ws] plain_s by (auto simp add: plainTerm_def wordEdged_def)
  then have ts: "terms (fst (translate e input)) = foundTerms e input"
    by (rule terms_nonempty)
  let ?A = "matched (patterns e) input"
  let ?B = "matched (map snd (dynamicPatterns e)) input"
  have found: "foundTerms e input = addNew ?A ?B"
    by (simp add: foundTerms_def pats matched_static_found)
  obtain ys where ys: "addNew ?A ?B = ?A @ ys" "set ys \<subseteq> set ?B"
    using addNew_extends [of ?A ?B] by blast
  have inA: "entryOf s \<in> set ?A" using assms(2) ms by (rule matched_member)
  have inB: "entryOf d \<in> set ?B" using dm md by (rule matched_member)
  have colon_d: "CHR '':'' \<notin> set (term_s d)"
    using toLowerCase_colon [of "term_s d"] toLowerCase_colon [of "term_s s"] assms(4) plain_s
    by (simp add: plainTerm_def)
  have "keyOf (entryOf d) \<in> keyOf ` set (addNew ?A ?B)"
    using inB by (simp add: addNew_keys)
  then have "keyOf (entryOf d) \<in> keyOf ` set (?A @ ys)"
    by (simp only: ys(1))
  then obtain x where x: "x \<in> set (?A @ ys)" "keyOf x = keyOf (entryOf d)"
    by (metis imageE)
  have notA: "x \<notin> set ?A"
  proof
    assume "x \<in> set ?A"
    then obtain q where q: "q \<in> set (patterns e)" "x = entryOf q"
      by (auto simp add: matched_def)
    from q(1) pats have qs: "q \<in> set (patterns staticEngine)" by simp
    have "term_s q @ '':'' @ category q = term_s d @ '':'' @ category d"
      using x(2) q(2) by (simp add: keyOf_entryOf)
    with static_plain(2) [OF qs] assms(6) have "term_s q = term_s d \<and> category q = category d"
      by (rule key_inj)
    then have eq: "term_s q = term_s d" "category q = category d" by simp_all
    show False
    proof (cases "term_s d = term_s s")
      case True
      from q(1) eq(1) True have "q \<in> {q \<in> set (patterns e). term_s q = term_s s}"
        by simp
      then have "category q \<in> category ` {q \<in> set (patterns e). term_s q = term_s s}"
        by (rule imageI)
      with eq(2) True assms(5) show False by simp
    next
      case False
      have "toLowerCase (term_s q) = toLowerCase (term_s s)"
        by (simp only: eq(1) assms(4))
      with static_plain(1) [OF qs] plain_s have "term_s q = term_s s"
        by (rule plainTerm_case_unique)
      with eq(1) False show False by simp
    qed
  qed
  with x(1) have "x \<in> set ys" by simp
  with ys(2) have "x \<in> set ?B" by blast
  from matched_origin [OF this]
  obtain d' where d': "d' \<in> set (map snd (dynamicPatterns e))" "x = entryOf d'"
    by blast
  have "term_s d @ '':'' @ category d = term_s d' @ '':'' @ category d'"
    using x(2) d'(2) by (simp add: keyOf_entryOf)
  with colon_d assms(6) have "term_s d = term_s d' \<and> category d = category d'"
    by (rule key_inj_plain)
  then have same: "term_s d' = term_s d" by simp
  from dm obtain k where k: "(k, d) \<in> set (dynamicPatterns e)" by auto
  from d'(1) obtain k' where k': "(k', d') \<in> set (dynamicPatterns e)" by auto
  have "k' = k" using store [OF k] store [OF k'] same by simp
  with keys k k' have "d' = d" by (auto dest: store_value_unique)
  with d'(2) \<open>x \<in> set ys\<close> have inys: "entryOf d \<in> set ys" by simp
  from inA obtain xs r1 where "?A = xs @ entryOf s # r1" by (auto dest: split_list)
  moreover from inys obtain r2 zs where "ys = r2 @ entryOf d # zs" by (auto dest: split_list)
  ultimately have "foundTerms e input = xs @ entryOf s # (r1 @ r2) @ entryOf d # zs"
    using found ys(1) by simp
  then show ?thesis unfolding ts by blast
qed

theorem C10_dynamic_beside_static_witness:
  "reachable capsEngine \<and> capPattern \<in> set (patterns capsEngine) \<and>
   capsPattern \<in> snd ` set (dynamicPatterns capsEngine) \<and>
   toLowerCase (term_s capsPattern) = toLowerCase (term_s capPattern) \<and>
   term_s capsPattern \<noteq> term_s capPattern \<and>
   CHR '':'' \<notin> set (category capsPattern) \<and>
   occursBounded (term_s capPattern) ''no Cap here'' \<and>
   (\<exists>xs ys zs. terms (fst (translate capsEngine ''no Cap here'')) =
      xs @ entryOf capPattern # ys @ entryOf capsPattern # zs)"
proof -
  have 1: "capPattern \<in> set (patterns capsEngine)"
    using capPattern_static by (simp add: capsEngine_def)
  have 2: "capsPattern \<in> snd ` set (dynamicPatterns capsEngine)"
    by (simp add: capsEngine_def)
  have 3: "toLowerCase (term_s capsPattern) = toLowerCase (term_s capPattern)"
    unfolding capsPattern_def capPattern_def by code_simp
  have 4: "term_s capsPattern \<noteq> term_s capPattern"
    by (simp add: capsPattern_def capPattern_def)
  have 5: "CHR '':'' \<notin> set (category capsPattern)"
    by (simp add: capsPattern_def)
  have 6: "occursBounded (term_s capPattern) ''no Cap here''"
    unfolding capPattern_def by code_simp
  have 7: "term_s capsPattern \<noteq> term_s capPattern \<or>
           category capsPattern \<notin>
             category ` {q \<in> set (patterns capsEngine). term_s q = term_s capPattern}"
    using 4 by simp
  show ?thesis
    using C10_dynamic_beside_static [OF capsEngine_reachable 1 2 3 7 5 6]
      capsEngine_reachable 1 2 3 4 5 6
    by (intro conjI)
qed

end
